theory Spec2Isabelle
  imports Main "HOL-Library.Multiset"
begin

section \<open>Data model of the orchestrator (twitch.py)\<close>

text \<open>The states of the orchestration state machine (\<open>constants.State\<close>, as used by
  \<open>Twitch.run\<close>).\<close>

datatype State =
    IDLE
  | INVENTORY_FETCH
  | GAMES_UPDATE
  | CHANNELS_CLEANUP
  | CHANNELS_FETCH
  | CHANNEL_SWITCH
  | EXIT

record game =
  g_id :: int
  g_name :: string

record channel =
  ch_id :: int
  ch_name :: string
  online :: bool
  viewers :: "int option"
  ch_game :: "game option"
  drops_enabled :: bool
  priority :: bool

text \<open>A timed drop. Drops are objects shared between a campaign's drop list and the
  orchestrator's \<open>_drops\<close> index, and they are mutated in place, so they live in an explicit
  store and are referred to by address.\<close>

type_synonym addr = nat

record drop =
  d_id :: string
  current_minutes :: int
  required_minutes :: int

type_synonym store = "addr \<Rightarrow> drop"

record campaign =
  c_id :: string
  c_game :: game
  ends_at :: int
  upcoming :: bool
  allowed_channels :: "channel list"
  c_drops :: "addr list"

text \<open>The fields of \<open>Twitch\<close> that the modelled methods read or write. \<open>state_change\<close> is
  the \<open>asyncio.Event\<close> flag; \<open>selection\<close> is the channel selected in the GUI;
  \<open>topics\<close> holds the channel identifiers whose stream-state topic is subscribed;
  \<open>drop_update_pending\<close> tells whether \<open>_drop_update\<close> holds a future (it is set back to
  \<open>None\<close> as soon as the future is resolved or has timed out).\<close>

record twitch =
  t_state :: State
  state_change :: bool
  games :: "(game \<times> int) list"
  inventory :: "campaign list"
  drops_index :: "(string \<times> addr) list"
  heap :: store
  channels :: "(int \<times> channel) list"
  watching_channel :: "channel option"
  selection :: "channel option"
  topics :: "int set"
  drop_update_pending :: bool

section \<open>State changes\<close>

text \<open>\<open>Twitch.change_state\<close>: the state is replaced unless it is already \<open>EXIT\<close>; the
  event flag is set in both cases.\<close>

definition change_state :: "twitch \<Rightarrow> State \<Rightarrow> twitch" where
  "change_state t s =
     (if t_state t \<noteq> EXIT then t\<lparr>t_state := s\<rparr> else t)\<lparr>state_change := True\<rparr>"

text \<open>A sequence of \<open>change_state\<close> calls, in order.\<close>

definition change_states :: "twitch \<Rightarrow> State list \<Rightarrow> twitch" where
  "change_states t reqs = foldl change_state t reqs"

definition twitch0 :: twitch where
  "twitch0 = \<lparr>t_state = IDLE, state_change = False, games = [], inventory = [],
     drops_index = [], heap = (\<lambda>_. \<lparr>d_id = [], current_minutes = 0, required_minutes = 0\<rparr>),
     channels = [], watching_channel = None, selection = None, topics = {},
     drop_update_pending = False\<rparr>"

section \<open>Channel ranking\<close>

text \<open>\<open>Twitch._viewers_key\<close>: the viewer count, or \<open>-1\<close> when it is unknown.\<close>

definition viewers_key :: "channel \<Rightarrow> int" where
  "viewers_key ch = (case viewers ch of Some v \<Rightarrow> v | None \<Rightarrow> - 1)"

text \<open>\<open>Twitch._game_key\<close>: 1 for a channel without a game, 0 for a game outside the
  eligible-games mapping, the recorded rank otherwise.\<close>

definition game_key :: "(game \<times> int) list \<Rightarrow> channel \<Rightarrow> int" where
  "game_key gs ch =
     (case ch_game ch of
        None \<Rightarrow> 1
      | Some g \<Rightarrow> (case map_of gs g of None \<Rightarrow> 0 | Some r \<Rightarrow> r))"

text \<open>Python's \<open>sorted(xs, key=key)\<close> and \<open>xs.sort(key=key)\<close> are stable. With
  \<open>reverse=True\<close> the list is reversed, sorted stably and reversed again, so elements with
  equal keys keep their original relative order there too.\<close>

definition py_sorted :: "('a \<Rightarrow> 'k::linorder) \<Rightarrow> 'a list \<Rightarrow> 'a list" where
  "py_sorted key xs = sort_key key xs"

definition py_sorted_rev :: "('a \<Rightarrow> 'k::linorder) \<Rightarrow> 'a list \<Rightarrow> 'a list" where
  "py_sorted_rev key xs = rev (sort_key key (rev xs))"

text \<open>The three sorts of \<open>CHANNELS_FETCH\<close> in \<open>Twitch.run\<close>: by viewers descending, then
  by the priority flag descending, then by game key ascending.\<close>

definition rank_channels :: "(game \<times> int) list \<Rightarrow> channel list \<Rightarrow> channel list" where
  "rank_channels gs new_channels =
     py_sorted (game_key gs) (py_sorted_rev priority (py_sorted_rev viewers_key new_channels))"

text \<open>Three channels without a game, used as concrete inputs below.\<close>

definition chA :: channel where
  "chA = \<lparr>ch_id = 1, ch_name = ''a'', online = True, viewers = None, ch_game = None,
          drops_enabled = True, priority = True\<rparr>"

definition chB :: channel where
  "chB = \<lparr>ch_id = 2, ch_name = ''b'', online = True, viewers = Some 0, ch_game = None,
          drops_enabled = True, priority = False\<rparr>"

definition chC :: channel where
  "chC = \<lparr>ch_id = 3, ch_name = ''c'', online = True, viewers = None, ch_game = None,
          drops_enabled = True, priority = False\<rparr>"

section \<open>Truncation to the topic budget\<close>

text \<open>Python's slices \<open>xs[k:]\<close> and \<open>xs[:k]\<close>: a negative bound counts from the end,
  and every bound is clamped to the list.\<close>

definition py_slice_from :: "'a list \<Rightarrow> int \<Rightarrow> 'a list" where
  "py_slice_from xs k =
     (let n = int (length xs);
          k' = (if k < 0 then max 0 (k + n) else min k n)
      in drop (nat k') xs)"

definition py_slice_to :: "'a list \<Rightarrow> int \<Rightarrow> 'a list" where
  "py_slice_to xs k =
     (let n = int (length xs);
          k' = (if k < 0 then max 0 (k + n) else min k n)
      in take (nat k') xs)"

text \<open>Assignment \<open>od[k] = v\<close> in an \<open>OrderedDict\<close>, kept as an association list in
  insertion order: an existing key keeps its position, a new key goes to the end.\<close>

fun od_set :: "'k \<Rightarrow> 'v \<Rightarrow> ('k \<times> 'v) list \<Rightarrow> ('k \<times> 'v) list" where
  "od_set k v [] = [(k, v)]"
| "od_set k v ((k', v') # kvs) =
     (if k' = k then (k', v) # kvs else (k', v') # od_set k v kvs)"

text \<open>Modelled from the spec: \<open>WebsocketPool.remove_topics\<close> (websocket.py is not part
  of the sources), the "unsubscribe(topic names)" capability of the push-topic pool. Only
  the \<open>Channel.StreamState\<close> topics are tracked, each by the identifier of its channel.\<close>

definition remove_topics :: "int list \<Rightarrow> int set \<Rightarrow> int set" where
  "remove_topics ids ts = ts - set ids"

text \<open>Modelled from the spec: \<open>WebsocketPool.add_topics\<close> (websocket.py is not part of
  the sources), the "subscribe(topic name, handler)" capability of the push-topic pool.\<close>

definition add_topics :: "int list \<Rightarrow> int set \<Rightarrow> int set" where
  "add_topics ids ts = ts \<union> set ids"

text \<open>The part of \<open>CHANNELS_FETCH\<close> in \<open>Twitch.run\<close> that follows the gathering of
  \<open>new_channels\<close>: ranking, truncation to \<open>max_channels\<close>, unsubscribing the
  overflow, rebuilding \<open>self.channels\<close> and subscribing to its keys. The constants
  \<open>MAX_WEBSOCKETS\<close> and \<open>WS_TOPICS_LIMIT\<close> (constants.py) are parameters.\<close>

definition channels_fetch_commit :: "int \<Rightarrow> int \<Rightarrow> channel list \<Rightarrow> twitch \<Rightarrow> twitch" where
  "channels_fetch_commit MAX_WEBSOCKETS WS_TOPICS_LIMIT new_channels t =
     (let ordered_channels = rank_channels (games t) new_channels;
          max_channels = MAX_WEBSOCKETS * WS_TOPICS_LIMIT - 2;
          to_remove = py_slice_from ordered_channels max_channels;
          ordered_channels = py_slice_to ordered_channels max_channels;
          topics1 = (if to_remove \<noteq> [] then remove_topics (map ch_id to_remove) (topics t)
                     else topics t);
          channels1 = foldl (\<lambda>od ch. od_set (ch_id ch) ch od) [] ordered_channels;
          topics2 = add_topics (map fst channels1) topics1
      in t\<lparr>channels := channels1, topics := topics2\<rparr>)"

definition tw1 :: twitch where
  "tw1 = twitch0\<lparr>channels := [(3, chC)], topics := {3}\<rparr>"

section \<open>Methods of inventory.py used by the orchestrator\<close>

text \<open>inventory.py is not part of the sources. The methods of \<open>DropsCampaign\<close> and
  \<open>TimedDrop\<close> whose results steer \<open>Twitch\<close> are parameters of the model: they may depend
  on the current contents of the drop store.
  \<^item> \<open>campaign_can_earn h c ch\<close> is \<open>DropsCampaign.can_earn(channel)\<close>,
  \<^item> \<open>drop_can_earn h d ch\<close> is \<open>TimedDrop.can_earn(channel)\<close>,
  \<^item> \<open>remaining_minutes\<close> is the property \<open>TimedDrop.remaining_minutes\<close>,
  \<^item> \<open>can_claim h d\<close> is the property \<open>TimedDrop.can_claim\<close>,
  \<^item> \<open>claim h d\<close> is the store after \<open>await drop.claim()\<close>.\<close>

record inventory_api =
  campaign_can_earn :: "store \<Rightarrow> campaign \<Rightarrow> channel option \<Rightarrow> bool"
  drop_can_earn :: "store \<Rightarrow> addr \<Rightarrow> channel option \<Rightarrow> bool"
  remaining_minutes :: "drop \<Rightarrow> int"
  can_claim :: "store \<Rightarrow> addr \<Rightarrow> bool"
  claim :: "store \<Rightarrow> addr \<Rightarrow> store"

section \<open>Watching\<close>

text \<open>\<open>Twitch.can_watch\<close>.\<close>

definition can_watch :: "inventory_api \<Rightarrow> twitch \<Rightarrow> channel \<Rightarrow> bool" where
  "can_watch api t ch =
     (if games t = [] then False
      else online ch \<and> drops_enabled ch
           \<and> (case ch_game ch of None \<Rightarrow> False | Some g \<Rightarrow> g \<in> fst ` set (games t))
           \<and> list_ex (\<lambda>campaign. campaign_can_earn api (heap t) campaign (Some ch))
                (inventory t))"

text \<open>\<open>Twitch.watch\<close>, without its GUI call.\<close>

definition watch :: "twitch \<Rightarrow> channel \<Rightarrow> twitch" where
  "watch t ch = t\<lparr>watching_channel := Some ch\<rparr>"

section \<open>The CHANNEL_SWITCH state\<close>

datatype py_error = UnboundLocalError

text \<open>The loop \<open>for channel in xs: if self.can_watch(channel): new_watching = channel; break\<close>.
  The pair carries \<open>new_watching\<close> and the loop variable \<open>channel\<close>, which keeps its last
  value after the loop (\<open>None\<close> stands for "not bound yet").\<close>

fun first_watchable ::
  "(channel \<Rightarrow> bool) \<Rightarrow> channel list \<Rightarrow> channel option \<times> channel option
     \<Rightarrow> channel option \<times> channel option" where
  "first_watchable P [] (new_watching, cv) = (new_watching, cv)"
| "first_watchable P (c # cs) (new_watching, cv) =
     (if P c then (Some c, Some c) else first_watchable P cs (new_watching, Some c))"

text \<open>The \<open>CHANNEL_SWITCH\<close> branch of \<open>Twitch.run\<close>. \<open>cv\<close> is the local variable
  \<open>channel\<close> as earlier branches left it; the branch ends with \<open>self.watch(channel)\<close>,
  not \<open>self.watch(new_watching)\<close>.\<close>

definition channel_switch ::
  "inventory_api \<Rightarrow> twitch \<Rightarrow> channel option \<Rightarrow> py_error + twitch \<times> channel option" where
  "channel_switch api t cv =
     (let selected_channel = selection t;
          t1 = (case selected_channel of None \<Rightarrow> t | Some s \<Rightarrow> t\<lparr>selection := None\<rparr>);
          priority_channels = (case selected_channel of None \<Rightarrow> [] | Some s \<Rightarrow> [s]);
          priority_channels =
            (case watching_channel t1 of
               None \<Rightarrow> priority_channels
             | Some w \<Rightarrow> priority_channels @ [w]);
          r1 = first_watchable (can_watch api t1) priority_channels (None, cv);
          r2 = (if fst r1 = None
                then first_watchable (can_watch api t1)
                       (py_sorted (game_key (games t1)) (map snd (channels t1))) r1
                else r1)
      in if fst r2 \<noteq> None
         then (case snd r2 of
                 None \<Rightarrow> Inl UnboundLocalError
               | Some channel \<Rightarrow> Inr ((watch t1 channel)\<lparr>state_change := False\<rparr>, snd r2))
         else Inr (change_state t1 IDLE, snd r2))"

text \<open>The candidate order in the words of the specification: the selected channel, then
  the watched channel, then the active channels sorted stably by game rank.\<close>

definition switch_candidates :: "twitch \<Rightarrow> channel list" where
  "switch_candidates t =
     (case selection t of None \<Rightarrow> [] | Some s \<Rightarrow> [s])
     @ (case watching_channel t of None \<Rightarrow> [] | Some w \<Rightarrow> [w])
     @ py_sorted (game_key (games t)) (map snd (channels t))"

text \<open>Concrete inputs: a game, two channels streaming it (one of them offline), a campaign
  for it, and an instance of the inventory methods in which everything can be earned.\<close>

definition gameG :: game where
  "gameG = \<lparr>g_id = 7, g_name = ''G''\<rparr>"

definition chG :: channel where
  "chG = \<lparr>ch_id = 4, ch_name = ''g'', online = True, viewers = Some 10, ch_game = Some gameG,
          drops_enabled = True, priority = False\<rparr>"

definition chOff :: channel where
  "chOff = \<lparr>ch_id = 5, ch_name = ''off'', online = False, viewers = None,
            ch_game = Some gameG, drops_enabled = True, priority = False\<rparr>"

definition campG :: campaign where
  "campG = \<lparr>c_id = ''cg'', c_game = gameG, ends_at = 100, upcoming = False,
            allowed_channels = [], c_drops = [0, 1]\<rparr>"

definition api1 :: inventory_api where
  "api1 = \<lparr>campaign_can_earn = (\<lambda>h c ch. True), drop_can_earn = (\<lambda>h d ch. True),
           remaining_minutes = (\<lambda>d. required_minutes d - current_minutes d),
           can_claim = (\<lambda>h d. False), claim = (\<lambda>h d. h)\<rparr>"

definition tw_switch :: twitch where
  "tw_switch = twitch0\<lparr>t_state := CHANNEL_SWITCH, games := [(gameG, 0)],
     inventory := [campG], channels := [(5, chOff), (4, chG)], selection := Some chOff\<rparr>"

section \<open>The active drop\<close>

text \<open>Modelled from the spec: \<open>AwaitableValue.get_with_default\<close> (utils.py is not part of
  the sources), the read of the single-slot holder of the watched channel: its value when
  one is set, the given default otherwise.\<close>

definition get_with_default :: "'a option \<Rightarrow> 'a option \<Rightarrow> 'a option" where
  "get_with_default cell dflt = (case cell of Some v \<Rightarrow> Some v | None \<Rightarrow> dflt)"

text \<open>One round of the loop over the inventory in \<open>Twitch.get_active_drop\<close>; the pair is
  \<open>(drops, strict_drops)\<close>.\<close>

definition active_drop_step ::
  "inventory_api \<Rightarrow> twitch \<Rightarrow> channel option \<Rightarrow> game option \<Rightarrow> addr list \<times> addr list
     \<Rightarrow> campaign \<Rightarrow> addr list \<times> addr list" where
  "active_drop_step api t wc game acc campaign =
     (if c_game campaign \<in> fst ` set (games t) \<and> campaign_can_earn api (heap t) campaign wc
      then let new_drops = filter (\<lambda>d. drop_can_earn api (heap t) d wc) (c_drops campaign)
           in (fst acc @ new_drops,
               (case game of
                  None \<Rightarrow> snd acc
                | Some g \<Rightarrow> if c_game campaign = g then snd acc @ new_drops else snd acc))
      else acc)"

text \<open>\<open>Twitch.get_active_drop\<close>. The result is the address of the drop.\<close>

definition get_active_drop ::
  "inventory_api \<Rightarrow> twitch \<Rightarrow> channel option \<Rightarrow> addr option" where
  "get_active_drop api t channel =
     (if games t = [] then None
      else
        let wc = get_with_default (watching_channel t) channel;
            game = (case wc of None \<Rightarrow> None | Some w \<Rightarrow> ch_game w);
            acc = foldl (active_drop_step api t wc game) ([], []) (inventory t);
            drops = (if snd acc \<noteq> [] then snd acc else fst acc)
        in if drops \<noteq> []
           then (case py_sorted (\<lambda>d. remaining_minutes api (heap t d)) drops of
                   [] \<Rightarrow> None
                 | d # ds \<Rightarrow> Some d)
           else None)"

text \<open>The candidates in the words of the claim. The channel is the watched one, or the
  argument when nothing is watched. \<open>earnable_drops\<close> are the drops earnable on it from the
  campaigns that pass \<open>keep\<close>, whose game is eligible and which can be progressed on it;
  \<open>drop_candidates\<close> restricts them to the campaigns of the channel's game when that leaves
  any drop.\<close>

definition earnable_drops ::
  "inventory_api \<Rightarrow> twitch \<Rightarrow> channel option \<Rightarrow> (campaign \<Rightarrow> bool) \<Rightarrow> addr list" where
  "earnable_drops api t wc keep =
     concat (map (\<lambda>c. filter (\<lambda>d. drop_can_earn api (heap t) d wc) (c_drops c))
       (filter (\<lambda>c. keep c \<and> c_game c \<in> fst ` set (games t)
                      \<and> campaign_can_earn api (heap t) c wc) (inventory t)))"

definition same_game :: "channel option \<Rightarrow> campaign \<Rightarrow> bool" where
  "same_game wc c = (case wc of None \<Rightarrow> False | Some w \<Rightarrow> ch_game w = Some (c_game c))"

definition drop_candidates :: "inventory_api \<Rightarrow> twitch \<Rightarrow> channel option \<Rightarrow> addr list" where
  "drop_candidates api t channel =
     (let wc = (case watching_channel t of Some w \<Rightarrow> Some w | None \<Rightarrow> channel)
      in if earnable_drops api t wc (same_game wc) \<noteq> []
         then earnable_drops api t wc (same_game wc)
         else earnable_drops api t wc (\<lambda>c. True))"

text \<open>A concrete state: the campaign of game \<open>G\<close> with two drops, 50 and 20 minutes from
  completion, and nothing watched.\<close>

definition tw_drops :: twitch where
  "tw_drops = twitch0\<lparr>games := [(gameG, 0)], inventory := [campG],
     drops_index := [(''d0'', 0), (''d1'', 1)],
     heap := (\<lambda>a. if a = 0 then \<lparr>d_id = ''d0'', current_minutes = 10, required_minutes = 60\<rparr>
                   else \<lparr>d_id = ''d1'', current_minutes = 10, required_minutes = 30\<rparr>)\<rparr>"

section \<open>The GAMES_UPDATE state\<close>

text \<open>The settings read by \<open>GAMES_UPDATE\<close>: \<open>Settings.exclude\<close>, \<open>Settings.priority\<close> and
  \<open>Settings.priority_only\<close>.\<close>

record settings =
  s_exclude :: "string list"
  s_priority :: "string list"
  s_priority_only :: bool

text \<open>The first loop: every claimable drop of every campaign that is not upcoming is
  claimed.\<close>

definition claim_drops :: "inventory_api \<Rightarrow> campaign list \<Rightarrow> store \<Rightarrow> store" where
  "claim_drops api campaigns h =
     foldl (\<lambda>h campaign.
              if \<not> upcoming campaign
              then foldl (\<lambda>h d. if can_claim api h d then claim api h d else h) h
                     (c_drops campaign)
              else h) h campaigns"

text \<open>One round of the second loop, which collects the games. \<open>priorities\<close> is the
  dictionary returned by \<open>self.gui.settings.priorities()\<close>.\<close>

definition collect_game ::
  "inventory_api \<Rightarrow> settings \<Rightarrow> (string \<times> int) list \<Rightarrow> store \<Rightarrow> (game \<times> int) list
     \<Rightarrow> campaign \<Rightarrow> (game \<times> int) list" where
  "collect_game api st priorities h gs campaign =
     (let game = c_game campaign
      in if game \<notin> fst ` set gs
            \<and> (s_priority_only st \<and> g_name game \<in> set (s_priority st)
                \<and> g_name game \<notin> set (s_exclude st))
            \<and> campaign_can_earn api h campaign None
         then gs @ [(game, (case map_of priorities (g_name game) of Some r \<Rightarrow> r | None \<Rightarrow> 0))]
         else gs)"

text \<open>The \<open>GAMES_UPDATE\<close> branch of \<open>Twitch.run\<close>; the second component is the local
  variable \<open>full_cleanup\<close>.\<close>

definition state_games_update ::
  "inventory_api \<Rightarrow> settings \<Rightarrow> (string \<times> int) list \<Rightarrow> twitch \<Rightarrow> twitch \<times> bool" where
  "state_games_update api st priorities t =
     (let t1 = t\<lparr>games := []\<rparr>;
          t2 = t1\<lparr>heap := claim_drops api (inventory t1) (heap t1)\<rparr>;
          t3 = t2\<lparr>games := foldl (collect_game api st priorities (heap t2)) [] (inventory t2)\<rparr>
      in (change_state t3 CHANNELS_CLEANUP, True))"

text \<open>Settings with priority-only mode off, nothing excluded and no priority list.\<close>

definition settings_off :: settings where
  "settings_off = \<lparr>s_exclude = [], s_priority = [], s_priority_only = False\<rparr>"

section \<open>Progress reconciliation of the watch loop\<close>

text \<open>Modelled from the spec: \<open>TimedDrop.update_minutes\<close> (inventory.py is not part of
  the sources). A progress update from a push event or from the poll sets the drop's
  current minutes to the reported value.\<close>

definition update_minutes :: "drop \<Rightarrow> int \<Rightarrow> drop" where
  "update_minutes d minutes = d\<lparr>current_minutes := minutes\<rparr>"

text \<open>Modelled from the spec: \<open>TimedDrop.bump_minutes\<close> (inventory.py is not part of the
  sources). The local estimate "increments the drop's progress by one minute".\<close>

definition bump_minutes :: "drop \<Rightarrow> drop" where
  "bump_minutes d = d\<lparr>current_minutes := current_minutes d + 1\<rparr>"

text \<open>What a cycle does besides changing the state: the \<open>CurrentDrop\<close> query, the calls of
  \<open>update_minutes\<close> and \<open>bump_minutes\<close>, and the logged errors.\<close>

datatype action =
    GqlCurrentDrop
  | UpdateMinutes addr int
  | BumpMinutes addr
  | LogError

text \<open>\<open>Twitch.process_drops\<close> for a message of type \<open>drop-progress\<close> carrying a drop
  identifier and \<open>current_progress_min\<close>. The second component is the value the pending
  future was resolved with, if it was resolved.\<close>

definition process_drops_progress ::
  "inventory_api \<Rightarrow> twitch \<Rightarrow> string \<times> int \<Rightarrow> twitch \<times> bool option \<times> action list" where
  "process_drops_progress api t msg =
     (let drop = map_of (drops_index t) (fst msg)
      in if \<not> drop_update_pending t then (t, None, [])
         else (case drop of
                 None \<Rightarrow> (t\<lparr>drop_update_pending := False\<rparr>, Some False, [])
               | Some d \<Rightarrow>
                   if drop_can_earn api (heap t) d (get_with_default (watching_channel t) None)
                   then (t\<lparr>heap := (heap t)(d := update_minutes (heap t d) (snd msg)),
                           drop_update_pending := False\<rparr>,
                         Some True, [UpdateMinutes d (snd msg)])
                   else (t\<lparr>drop_update_pending := False\<rparr>, Some False, [])))"

text \<open>The \<open>CurrentDrop\<close> query of the watch loop and what follows it. \<open>drop_data\<close> is
  \<open>context["data"]["currentUser"]["dropCurrentSession"]\<close>, reduced to \<open>dropID\<close> and
  \<open>currentMinutesWatched\<close>. The result carries \<open>use_active\<close>.\<close>

definition poll_current_drop ::
  "inventory_api \<Rightarrow> twitch \<Rightarrow> channel \<Rightarrow> (string \<times> int) option
     \<Rightarrow> twitch \<times> bool \<times> action list" where
  "poll_current_drop api t channel drop_data =
     (case drop_data of
        None \<Rightarrow> (t, False, [GqlCurrentDrop])
      | Some dd \<Rightarrow>
          (case map_of (drops_index t) (fst dd) of
             None \<Rightarrow> (t, True, [GqlCurrentDrop, LogError])
           | Some d \<Rightarrow>
               if \<not> drop_can_earn api (heap t) d (Some channel)
               then (t, True, [GqlCurrentDrop])
               else (t\<lparr>heap := (heap t)(d := update_minutes (heap t d) (snd dd))\<rparr>, False,
                     [GqlCurrentDrop, UpdateMinutes d (snd dd)])))"

text \<open>The local estimate from the cached inventory.\<close>

definition bump_active_drop ::
  "inventory_api \<Rightarrow> twitch \<Rightarrow> channel \<Rightarrow> twitch \<times> action list" where
  "bump_active_drop api t channel =
     (case get_active_drop api t (Some channel) of
        Some d \<Rightarrow> (t\<lparr>heap := (heap t)(d := bump_minutes (heap t d))\<rparr>, [BumpMinutes d])
      | None \<Rightarrow> (t, [LogError]))"

text \<open>One cycle of \<open>Twitch._watch_loop\<close> on \<open>channel\<close> from the successful heartbeat to the
  final sleep. \<open>event\<close> is the \<open>drop-progress\<close> message delivered to \<open>process_drops\<close>
  within the 10 seconds of \<open>wait_for\<close> (\<open>None\<close>: no message, the wait times out);
  \<open>drop_data\<close> is what the \<open>CurrentDrop\<close> query answers if it is issued.\<close>

definition watch_cycle ::
  "inventory_api \<Rightarrow> twitch \<Rightarrow> channel \<Rightarrow> (string \<times> int) option \<Rightarrow> (string \<times> int) option
     \<Rightarrow> twitch \<times> action list" where
  "watch_cycle api t channel event drop_data =
     (let t1 = t\<lparr>drop_update_pending := True\<rparr>;
          use_active = False;
          r = (case event of
                 None \<Rightarrow> (t1, None, [])
               | Some msg \<Rightarrow> process_drops_progress api t1 msg);
          handled = (case fst (snd r) of None \<Rightarrow> False | Some b \<Rightarrow> b);
          use_active = (case fst (snd r) of None \<Rightarrow> True | Some b \<Rightarrow> use_active);
          t2 = (fst r)\<lparr>drop_update_pending := False\<rparr>;
          tr = snd (snd r)
      in if \<not> handled
         then let p = (if \<not> use_active then poll_current_drop api t2 channel drop_data
                       else (t2, use_active, []));
                  b = (if fst (snd p) then bump_active_drop api (fst p) channel
                       else (fst p, []))
              in (fst b, tr @ snd (snd p) @ snd b)
         else (t2, tr))"

text \<open>A progress event for drop identifier \<open>i\<close> is not for the drop expected, and the
  polled drop identifier \<open>j\<close> is no valid match: the identifier is not tracked, or the
  drop cannot be earned on the channel (the currently watched one for the event, the one
  the cycle runs on for the poll).\<close>

definition event_mismatch :: "inventory_api \<Rightarrow> twitch \<Rightarrow> string \<Rightarrow> bool" where
  "event_mismatch api t i =
     (case map_of (drops_index t) i of
        None \<Rightarrow> True
      | Some a \<Rightarrow> \<not> drop_can_earn api (heap t) a (watching_channel t))"

definition poll_mismatch :: "inventory_api \<Rightarrow> twitch \<Rightarrow> channel \<Rightarrow> string \<Rightarrow> bool" where
  "poll_mismatch api t channel j =
     (case map_of (drops_index t) j of
        None \<Rightarrow> True
      | Some a \<Rightarrow> \<not> drop_can_earn api (heap t) a (Some channel))"

section \<open>Inventory refresh\<close>

text \<open>An entry of the campaign catalog (\<open>dropCampaigns\<close>), reduced to the fields that
  \<open>fetch_inventory\<close> reads: \<open>c["id"]\<close>, \<open>c["status"]\<close> and
  \<open>c["self"]["isAccountConnected"]\<close>.\<close>

record available_campaign =
  a_id :: string
  a_status :: string
  a_connected :: bool

text \<open>What the backend answers during one refresh: the in-progress campaigns and the
  catalog (either may be \<open>null\<close>), and for a campaign identifier and its catalog entry the
  campaign that \<open>fetch_campaign\<close> builds from the \<open>CampaignDetails\<close> response. The campaigns
  are given as \<open>DropsCampaign\<close> objects; \<open>new_drops\<close> is the store that holds their freshly
  built drops.\<close>

record backend =
  in_progress :: "campaign list option"
  available :: "available_campaign list option"
  details :: "string \<Rightarrow> available_campaign \<Rightarrow> campaign"
  new_drops :: store

text \<open>The condition of the dictionary comprehension \<open>available_campaigns\<close>.\<close>

definition applicable :: "string set \<Rightarrow> available_campaign \<Rightarrow> bool" where
  "applicable existing_campaigns c =
     (a_status c \<in> set [''ACTIVE'', ''UPCOMING'']
      \<and> a_connected c
      \<and> a_id c \<notin> existing_campaigns)"

text \<open>\<open>Twitch.fetch_inventory\<close>, without its GUI calls.\<close>

definition fetch_inventory :: "inventory_api \<Rightarrow> backend \<Rightarrow> twitch \<Rightarrow> twitch" where
  "fetch_inventory api be t =
     (let ongoing_campaigns = (case in_progress be of None \<Rightarrow> [] | Some cs \<Rightarrow> cs);
          campaigns = ongoing_campaigns;
          available_list = (case available be of None \<Rightarrow> [] | Some cs \<Rightarrow> cs);
          existing_campaigns = set (map c_id campaigns);
          available_campaigns =
            foldl (\<lambda>od c. if applicable existing_campaigns c then od_set (a_id c) c od else od)
              [] available_list;
          campaigns =
            foldl (\<lambda>cs item.
                     let campaign = details be (fst item) (snd item)
                     in if campaign_can_earn api (new_drops be) campaign None
                        then cs @ [campaign] else cs)
              campaigns available_campaigns;
          campaigns = py_sorted ends_at campaigns;
          idx = foldl (\<lambda>idx campaign.
                         foldl (\<lambda>idx d. od_set (d_id (new_drops be d)) d idx) idx
                           (c_drops campaign))
                  [] campaigns
      in t\<lparr>drops_index := idx, inventory := campaigns, heap := new_drops be\<rparr>)"

text \<open>The campaigns that the catalog pass adds, in the words of the specification: for every
  available campaign not among the in-progress ones, with status active or upcoming and
  the account linked, the fetched detail if it can still be progressed.\<close>

definition catalog_additions :: "inventory_api \<Rightarrow> backend \<Rightarrow> campaign list" where
  "catalog_additions api be =
     map (\<lambda>a. details be (a_id a) a)
       (filter (\<lambda>a. a_id a \<notin> c_id ` set (case in_progress be of None \<Rightarrow> [] | Some cs \<Rightarrow> cs)
                    \<and> (a_status a = ''ACTIVE'' \<or> a_status a = ''UPCOMING'')
                    \<and> a_connected a
                    \<and> campaign_can_earn api (new_drops be) (details be (a_id a) a) None)
          (case available be of None \<Rightarrow> [] | Some cs \<Rightarrow> cs))"

text \<open>A concrete refresh: campaign \<open>x\<close> is in progress; the catalog lists \<open>x\<close> again, the
  active campaign \<open>y\<close> and the expired campaign \<open>z\<close>.\<close>

definition campX :: campaign where
  "campX = \<lparr>c_id = ''x'', c_game = gameG, ends_at = 200, upcoming = False,
            allowed_channels = [], c_drops = []\<rparr>"

definition backend1 :: backend where
  "backend1 = \<lparr>in_progress = Some [campX],
     available = Some [\<lparr>a_id = ''x'', a_status = ''ACTIVE'', a_connected = True\<rparr>,
                       \<lparr>a_id = ''y'', a_status = ''ACTIVE'', a_connected = True\<rparr>,
                       \<lparr>a_id = ''z'', a_status = ''EXPIRED'', a_connected = True\<rparr>],
     details = (\<lambda>i a. \<lparr>c_id = i, c_game = gameG, ends_at = 100, upcoming = False,
                         allowed_channels = [], c_drops = []\<rparr>),
     new_drops = heap twitch0\<rparr>"

section \<open>The retrying request wrapper\<close>

text \<open>What \<open>session.request(method, url, **kwargs)\<close> does at one attempt of
  \<open>Twitch.request\<close>: it is answered, and the response is yielded to the caller; or it
  raises an \<open>aiohttp.ClientConnectionError\<close>; or it raises any other exception. Responses
  and exceptions are named by numbers.\<close>

datatype attempt =
    Responded nat
  | ConnectionFailed nat
  | Failed nat

text \<open>What the caller's \<open>async with\<close> body does with a yielded response: it runs to its
  end; or it raises an \<open>aiohttp.ClientConnectionError\<close> (the connection drops while the
  body is read); or it raises any other exception (a decode error, say). An exception of
  the body is thrown into the generator at \<open>yield response\<close>, which stands inside the
  \<open>try\<close> block.\<close>

datatype body_result =
    Completed
  | BodyConnectionFailed nat
  | BodyFailed nat

text \<open>How a call of \<open>request\<close> raises: the failed \<open>assert\<close>; \<open>RequestException\<close> with its
  \<open>__cause__\<close>; the exception that went through unhandled; and the
  \<open>RuntimeError("generator didn't stop after athrow()")\<close> of \<open>asynccontextmanager\<close>, raised
  when the generator yields again after an exception of the body was thrown into it.\<close>

datatype request_error =
    AssertionError
  | RequestException "nat option"
  | Propagated nat
  | GeneratorDidNotStop

text \<open>A finished call: the arguments of the \<open>asyncio.sleep\<close> calls in order, each in units
  of 0.1 seconds (\<open>0.1 * attempt\<close>); the attempt indices that were tried; and the response
  whose body completed, or the error.\<close>

record request_run =
  sleeps :: "nat list"
  tried :: "nat list"
  outcome :: "request_error + nat"

text \<open>The \<open>except aiohttp.ClientConnectionError\<close> clause: the backoff sleep, unless this was
  the last attempt.\<close>

definition backoff :: "int \<Rightarrow> nat \<Rightarrow> request_run \<Rightarrow> request_run" where
  "backoff attempts attempt run =
     run\<lparr>tried := tried run @ [attempt],
         sleeps := (if int attempt < attempts - 1 then sleeps run @ [attempt] else sleeps run)\<rparr>"

text \<open>The loop \<open>for attempt in range(attempts)\<close> over the remaining indices, with the
  local variable \<open>cause\<close>. \<open>net\<close> tells what the session does at each attempt and \<open>body\<close>
  what the caller does with a response. \<open>thrown\<close> tells whether the generator has been
  resumed by an exception of the caller's body: the body has run then, and a further
  \<open>yield\<close> makes the context manager raise.\<close>

fun request_attempts ::
  "(nat \<Rightarrow> attempt) \<Rightarrow> (nat \<Rightarrow> body_result) \<Rightarrow> int \<Rightarrow> nat list \<Rightarrow> nat option \<Rightarrow> bool
     \<Rightarrow> request_run \<Rightarrow> request_run" where
  "request_attempts net body attempts [] cause thrown run =
     run\<lparr>outcome := Inl (RequestException cause)\<rparr>"
| "request_attempts net body attempts (attempt # rest) cause thrown run =
     (case net attempt of
        Failed x \<Rightarrow> run\<lparr>tried := tried run @ [attempt], outcome := Inl (Propagated x)\<rparr>
      | ConnectionFailed exc \<Rightarrow>
          request_attempts net body attempts rest (Some exc) thrown (backoff attempts attempt run)
      | Responded r \<Rightarrow>
          if thrown
          then run\<lparr>tried := tried run @ [attempt], outcome := Inl GeneratorDidNotStop\<rparr>
          else (case body r of
                  Completed \<Rightarrow> run\<lparr>tried := tried run @ [attempt], outcome := Inr r\<rparr>
                | BodyFailed x \<Rightarrow>
                    run\<lparr>tried := tried run @ [attempt], outcome := Inl (Propagated x)\<rparr>
                | BodyConnectionFailed exc \<Rightarrow>
                    request_attempts net body attempts rest (Some exc) True
                      (backoff attempts attempt run)))"

text \<open>\<open>Twitch.request\<close>, used as \<open>async with self.request(...) as response: body\<close>.
  \<open>has_session\<close> tells whether \<open>self._session\<close> is set on entry: the local \<open>session\<close> is
  read before \<open>initialize\<close> is called, so without a session the \<open>assert\<close> fails.\<close>

definition request ::
  "(nat \<Rightarrow> attempt) \<Rightarrow> (nat \<Rightarrow> body_result) \<Rightarrow> bool \<Rightarrow> int \<Rightarrow> request_run" where
  "request net body has_session attempts =
     (if \<not> has_session then \<lparr>sleeps = [], tried = [], outcome = Inl AssertionError\<rparr>
      else request_attempts net body attempts [0..<nat attempts] None False
             \<lparr>sleeps = [], tried = [], outcome = Inl (RequestException None)\<rparr>)"

text \<open>Attempt \<open>i\<close> fails at connection level with exception \<open>e\<close>. \<open>j\<close> names the attempt,
  if there is one, whose failure is raised in the caller's body on the yielded response;
  at every other attempt it is the session's request that raises.\<close>

definition connection_failed ::
  "(nat \<Rightarrow> attempt) \<Rightarrow> (nat \<Rightarrow> body_result) \<Rightarrow> nat option \<Rightarrow> nat \<Rightarrow> nat \<Rightarrow> bool" where
  "connection_failed net body j i e =
     (if j = Some i
      then (case net i of
              Responded r \<Rightarrow> body r = BodyConnectionFailed e
            | ConnectionFailed exc \<Rightarrow> False
            | Failed x \<Rightarrow> False)
      else net i = ConnectionFailed e)"

text \<open>The attempt \<open>j\<close> at which the body fails, if any, lies before attempt \<open>k\<close>.\<close>

definition body_failed_before :: "nat option \<Rightarrow> nat \<Rightarrow> bool" where
  "body_failed_before j k = (case j of None \<Rightarrow> True | Some i \<Rightarrow> i < k)"

text \<open>A caller's body, and four networks: one that recovers at the third attempt, one
  that is down, one whose second response does not decode, and one whose first response
  is lost while the body reads it.\<close>

definition body1 :: "nat \<Rightarrow> body_result" where
  "body1 r = (if r = 7 then Completed else if r = 8 then BodyConnectionFailed 20
              else BodyFailed 9)"

definition net_recover :: "nat \<Rightarrow> attempt" where
  "net_recover i = (if i < 2 then ConnectionFailed i else Responded 7)"

definition net_down :: "nat \<Rightarrow> attempt" where
  "net_down i = ConnectionFailed (10 + i)"

definition net_decode :: "nat \<Rightarrow> attempt" where
  "net_decode i = (if i < 1 then ConnectionFailed i else Responded 9)"

definition net_lost :: "nat \<Rightarrow> attempt" where
  "net_lost i = (if i < 1 then Responded 8 else Responded 7)"

section \<open>Session validation\<close>

text \<open>How \<open>check_login\<close> can raise: an exception of \<open>_login\<close> (\<open>ExitRequest\<close>,
  \<open>CaptchaRequired\<close>, \<open>LoginException\<close>), a \<open>RequestException\<close> of the request wrapper, the
  \<open>KeyError\<close> of \<open>cookie["auth-token"]\<close>, and the \<open>RuntimeError\<close> "Login verification
  failure" of the loop's \<open>else\<close> branch.\<close>

datatype login_error =
    ExitRequest
  | CaptchaRequired
  | LoginException
  | RequestFailed
  | KeyError
  | LoginVerificationFailure

text \<open>The session fields of \<open>Twitch\<close>; \<open>jar\<close> holds the cookies stored for the site, by
  name.\<close>

record login_state =
  access_token :: "string option"
  user_id :: "int option"
  is_logged_in :: bool
  jar :: "(string \<times> string) list"

text \<open>The outside world of one \<open>check_login\<close> call: what the \<open>k\<close>-th call of \<open>_login\<close>
  returns or raises, and what the \<open>k\<close>-th validation request is answered with (status and
  the \<open>user_id\<close> of the body) or raises; \<open>py_str\<close> is Python's \<open>str\<close> on integers.\<close>

record auth_world =
  login_result :: "nat \<Rightarrow> login_error + string"
  validate_result :: "nat \<Rightarrow> login_error + int \<times> int"
  py_str :: "int \<Rightarrow> string"

datatype login_event =
    LoggedIn string
  | Validated "string option" int
  | CookieCleared

text \<open>The running call: the session, how many times \<open>_login\<close> and the validation request
  have been called, and what happened so far.\<close>

record login_run =
  session :: login_state
  logins :: nat
  validations :: nat
  events :: "login_event list"

text \<open>The first half of the loop body: the local \<open>cookie\<close> is read from the jar; without
  a cookie \<open>_login\<close> runs and its token is put into the local \<open>cookie\<close> only; with a cookie
  and no access token, the token is restored from the cookie.\<close>

definition obtain_token ::
  "auth_world \<Rightarrow> login_run \<Rightarrow> login_error + login_run \<times> (string \<times> string) list" where
  "obtain_token w r =
     (let cookie = jar (session r)
      in if cookie = []
         then (case login_result w (logins r) of
                 Inl e \<Rightarrow> Inl e
               | Inr tok \<Rightarrow>
                   Inr (r\<lparr>session := (session r)\<lparr>access_token := Some tok\<rparr>, logins := Suc (logins r),
                          events := events r @ [LoggedIn tok]\<rparr>,
                        od_set ''auth-token'' tok cookie))
         else if access_token (session r) = None
         then (case map_of cookie ''auth-token'' of
                 None \<Rightarrow> Inl KeyError
               | Some v \<Rightarrow> Inr (r\<lparr>session := (session r)\<lparr>access_token := Some v\<rparr>\<rparr>, cookie))
         else Inr (r, cookie))"

text \<open>The loop \<open>for attempt in range(2)\<close> of \<open>check_login\<close>, by the number of attempts
  left. A 401 clears the jar and continues; a 200 breaks with the local cookie and the
  user identifier; any other status falls through to the next attempt; running out of
  attempts raises.\<close>

fun check_login_loop ::
  "auth_world \<Rightarrow> nat \<Rightarrow> login_run
     \<Rightarrow> (login_error + (string \<times> string) list \<times> int) \<times> login_run" where
  "check_login_loop w 0 r = (Inl LoginVerificationFailure, r)"
| "check_login_loop w (Suc k) r =
     (case obtain_token w r of
        Inl e \<Rightarrow> (Inl e, r)
      | Inr (r1, cookie) \<Rightarrow>
          (case validate_result w (validations r1) of
             Inl e \<Rightarrow> (Inl e, r1)
           | Inr (status, uid) \<Rightarrow>
               let r2 = r1\<lparr>validations := Suc (validations r1),
                           events := events r1 @ [Validated (access_token (session r1)) status]\<rparr>
               in if status = 401
                  then check_login_loop w k
                         (r2\<lparr>session := (session r2)\<lparr>jar := []\<rparr>, events := events r2 @ [CookieCleared]\<rparr>)
                  else if status = 200 then (Inr (cookie, uid), r2)
                  else check_login_loop w k r2))"

declare check_login_loop.simps [simp del]

text \<open>\<open>jar.update_cookies(cookie, url)\<close>.\<close>

definition update_cookies ::
  "(string \<times> string) list \<Rightarrow> (string \<times> string) list \<Rightarrow> (string \<times> string) list" where
  "update_cookies cookie j = foldl (\<lambda>j kv. od_set (fst kv) (snd kv) j) j cookie"

text \<open>\<open>Twitch.check_login\<close>, without its GUI and logging calls.\<close>

definition check_login :: "auth_world \<Rightarrow> login_state \<Rightarrow> (login_error + unit) \<times> login_run" where
  "check_login w s =
     (let r0 = \<lparr>session = s, logins = 0, validations = 0, events = []\<rparr>
      in if access_token s \<noteq> None \<and> user_id s \<noteq> None then (Inr (), r0)
         else (case check_login_loop w 2 r0 of
                 (Inl e, r) \<Rightarrow> (Inl e, r)
               | (Inr (cookie, uid), r) \<Rightarrow>
                   let cookie = od_set ''persistent'' (py_str w uid) cookie
                   in (Inr (), r\<lparr>session := (session r)\<lparr>user_id := Some uid, is_logged_in := True,
                                   jar := update_cookies cookie (jar (session r))\<rparr>\<rparr>)))"

text \<open>A fresh session with a stored cookie, and a world whose first validation answers
  500 and whose second answers 200 for user 42.\<close>

definition session_cookie :: login_state where
  "session_cookie = \<lparr>access_token = None, user_id = None, is_logged_in = False,
     jar = [(''auth-token'', ''old'')]\<rparr>"

definition world_of :: "int \<Rightarrow> int \<Rightarrow> auth_world" where
  "world_of s0 s1 = \<lparr>login_result = (\<lambda>k. Inr ''new''),
     validate_result = (\<lambda>k. Inr (if k = 0 then s0 else s1, 42)),
     py_str = (\<lambda>n. ''42'')\<rparr>"

section \<open>EXIT is sticky\<close>

lemma change_state_EXIT: "t_state t = EXIT \<Longrightarrow> t_state (change_state t s) = EXIT"
  by (simp add: change_state_def)

lemma change_states_EXIT: "t_state t = EXIT \<Longrightarrow> t_state (change_states t reqs) = EXIT"
  unfolding change_states_def
  by (induction reqs arbitrary: t) (simp_all add: change_state_EXIT)

lemma change_states_append:
  "change_states t (xs @ ys) = change_states (change_states t xs) ys"
  by (simp add: change_states_def)

text \<open>Claim C3. For every sequence of \<open>change_state\<close> calls: once the state field is
  \<open>EXIT\<close>, whether it was so before or became so by a request in the sequence, every further
  call, whatever state it requests, leaves the field equal to \<open>EXIT\<close>.\<close>

theorem exit_is_sticky:
  "(t_state t = EXIT \<longrightarrow> t_state (change_states t reqs) = EXIT) \<and>
   t_state (change_states (change_state t EXIT) reqs) = EXIT \<and>
   (t_state (change_states t before) = EXIT \<longrightarrow>
      t_state (change_states t (before @ reqs)) = EXIT)"
proof (intro conjI impI)
  assume "t_state t = EXIT"
  then show "t_state (change_states t reqs) = EXIT" by (rule change_states_EXIT)
next
  have "t_state (change_state t EXIT) = EXIT" by (simp add: change_state_def)
  then show "t_state (change_states (change_state t EXIT) reqs) = EXIT"
    by (rule change_states_EXIT)
next
  assume "t_state (change_states t before) = EXIT"
  then show "t_state (change_states t (before @ reqs)) = EXIT"
    by (simp add: change_states_append change_states_EXIT)
qed

theorem exit_is_sticky_witness:
  "t_state (twitch0\<lparr>t_state := EXIT\<rparr>) = EXIT \<and>
   t_state (change_states (twitch0\<lparr>t_state := EXIT\<rparr>) [IDLE, INVENTORY_FETCH]) = EXIT \<and>
   t_state (change_states twitch0 [GAMES_UPDATE, EXIT]) = EXIT \<and>
   t_state (change_states twitch0 ([GAMES_UPDATE, EXIT] @ [IDLE, CHANNEL_SWITCH])) = EXIT"
  using exit_is_sticky [of "twitch0\<lparr>t_state := EXIT\<rparr>" "[IDLE, INVENTORY_FETCH]" "[]"]
        exit_is_sticky [of twitch0 "[IDLE, CHANNEL_SWITCH]" "[GAMES_UPDATE, EXIT]"]
  by (simp add: change_states_def change_state_def twitch0_def)


section \<open>Order of the channel ranking\<close>

lemma py_sorted_rev_sorted: "sorted_wrt (\<lambda>a b. key b \<le> key a) (py_sorted_rev key xs)"
proof -
  have "sorted (map key (sort_key key (rev xs)))" by simp
  then have "sorted_wrt (\<lambda>a b. key a \<le> key b) (sort_key key (rev xs))"
    by (simp only: sorted_map)
  then show ?thesis by (simp add: py_sorted_rev_def sorted_wrt_rev)
qed

lemma py_sorted_rev_stable:
  "filter (\<lambda>y. key y = c) (py_sorted_rev key xs) = filter (\<lambda>y. key y = c) xs"
  by (simp add: py_sorted_rev_def rev_filter [symmetric] sort_key_stable)

lemma py_sorted_stable:
  "filter (\<lambda>y. key y = c) (py_sorted key xs) = filter (\<lambda>y. key y = c) xs"
  by (simp add: py_sorted_def sort_key_stable)

lemma py_sorted_sorted: "sorted_wrt (\<lambda>a b. key a \<le> key b) (py_sorted key xs)"
proof -
  have "sorted (map key (sort_key key xs))" by simp
  then show ?thesis by (simp only: sorted_map py_sorted_def)
qed

lemma mset_py_sorted [simp]: "mset (py_sorted key xs) = mset xs"
  by (simp add: py_sorted_def)

lemma mset_py_sorted_rev [simp]: "mset (py_sorted_rev key xs) = mset xs"
  by (simp add: py_sorted_rev_def)

lemma sorted_wrt_before:
  "sorted_wrt R (as @ a # bs @ b # cs) \<Longrightarrow> R a b"
  by (simp add: sorted_wrt_append)

lemma filtered_order:
  assumes eq: "filter P ys = filter P xs"
    and srt: "sorted_wrt R xs"
    and dec: "ys = as @ a # bs @ b # cs"
    and Pa: "P a" and Pb: "P b"
  shows "R a b"
proof -
  have "sorted_wrt R (filter P ys)"
    using srt eq by (simp add: sorted_wrt_filter)
  moreover have "filter P ys = filter P as @ a # filter P bs @ b # filter P cs"
    using dec Pa Pb by simp
  ultimately show ?thesis by (simp add: sorted_wrt_append)
qed

lemma split_at_two:
  assumes "i < j" "j < length xs"
  shows "\<exists>as bs cs. xs = as @ xs ! i # bs @ xs ! j # cs"
proof -
  have i: "i < length xs" using assms by simp
  have 1: "xs = take i xs @ xs ! i # drop (Suc i) xs"
    using i by (rule id_take_nth_drop)
  let ?r = "drop (Suc i) xs"
  have j': "j - Suc i < length ?r" using assms by simp
  have 2: "?r = take (j - Suc i) ?r @ ?r ! (j - Suc i) # drop (Suc (j - Suc i)) ?r"
    using j' by (rule id_take_nth_drop)
  have 3: "?r ! (j - Suc i) = xs ! j" using assms by simp
  show ?thesis using 1 2 3 by metis
qed

lemma rank_priority_order:
  assumes dec: "rank_channels gs xs = as @ a # bs @ b # cs"
    and g: "game_key gs a = game_key gs b"
  shows "priority b \<le> priority a"
proof -
  let ?L2 = "py_sorted_rev priority (py_sorted_rev viewers_key xs)"
  have eq: "filter (\<lambda>y. game_key gs y = game_key gs a) (rank_channels gs xs)
          = filter (\<lambda>y. game_key gs y = game_key gs a) ?L2"
    by (simp add: rank_channels_def py_sorted_stable)
  have srt: "sorted_wrt (\<lambda>a b. priority b \<le> priority a) ?L2"
    by (rule py_sorted_rev_sorted)
  show ?thesis
    by (rule filtered_order [OF eq srt dec]) (simp_all add: g)
qed

lemma rank_viewers_order:
  assumes dec: "rank_channels gs xs = as @ a # bs @ b # cs"
    and g: "game_key gs a = game_key gs b"
    and p: "priority a = priority b"
  shows "viewers_key b \<le> viewers_key a"
proof -
  let ?L1 = "py_sorted_rev viewers_key xs"
  let ?L2 = "py_sorted_rev priority ?L1"
  let ?P = "\<lambda>y. priority y = priority a \<and> game_key gs y = game_key gs a"
  have "filter (\<lambda>y. game_key gs y = game_key gs a) (rank_channels gs xs)
          = filter (\<lambda>y. game_key gs y = game_key gs a) ?L2"
    by (simp add: rank_channels_def py_sorted_stable)
  then have "filter (\<lambda>y. priority y = priority a)
               (filter (\<lambda>y. game_key gs y = game_key gs a) (rank_channels gs xs))
          = filter (\<lambda>y. game_key gs y = game_key gs a)
               (filter (\<lambda>y. priority y = priority a) ?L2)"
    by (simp add: conj_commute)
  also have "filter (\<lambda>y. priority y = priority a) ?L2
          = filter (\<lambda>y. priority y = priority a) ?L1"
    by (rule py_sorted_rev_stable)
  finally have eq: "filter ?P (rank_channels gs xs) = filter ?P ?L1"
    by (simp add: conj_commute)
  have srt: "sorted_wrt (\<lambda>a b. viewers_key b \<le> viewers_key a) ?L1"
    by (rule py_sorted_rev_sorted)
  show ?thesis
    by (rule filtered_order [OF eq srt dec]) (simp_all add: g p)
qed

lemma rank_priority_index:
  assumes "i < length (rank_channels gs xs)" "j < length (rank_channels gs xs)"
    and "game_key gs (rank_channels gs xs ! i) = game_key gs (rank_channels gs xs ! j)"
    and "priority (rank_channels gs xs ! i)" "\<not> priority (rank_channels gs xs ! j)"
  shows "i < j"
proof (rule ccontr)
  assume "\<not> i < j"
  moreover have "i \<noteq> j" using assms by auto
  ultimately have "j < i" by simp
  from split_at_two [OF this assms(1)]
  obtain as bs cs where "rank_channels gs xs
      = as @ rank_channels gs xs ! j # bs @ rank_channels gs xs ! i # cs" by blast
  from rank_priority_order [OF this] assms show False by simp
qed

lemma rank_viewers_index:
  assumes "i < length (rank_channels gs xs)" "j < length (rank_channels gs xs)"
    and "game_key gs (rank_channels gs xs ! i) = game_key gs (rank_channels gs xs ! j)"
    and "priority (rank_channels gs xs ! i) = priority (rank_channels gs xs ! j)"
    and "viewers_key (rank_channels gs xs ! j) < viewers_key (rank_channels gs xs ! i)"
  shows "i < j"
proof (rule ccontr)
  assume "\<not> i < j"
  moreover have "i \<noteq> j" using assms by auto
  ultimately have "j < i" by simp
  from split_at_two [OF this assms(1)]
  obtain as bs cs where "rank_channels gs xs
      = as @ rank_channels gs xs ! j # bs @ rank_channels gs xs ! i # cs" by blast
  from rank_viewers_order [OF this] assms show False by simp
qed


lemmas rank_eval = rank_channels_def py_sorted_def py_sorted_rev_def game_key_def
  viewers_key_def chA_def chB_def chC_def

text \<open>Claim C4, as stated, fails: a channel with unknown viewer count does outrank a channel
  with viewer count 0 when it is priority-flagged and the other is not (both have game
  rank 1 here).\<close>

theorem unknown_viewers_outranks_zero_counterexample:
  "viewers (rank_channels [] [chB, chA] ! 0) = None \<and>
   viewers (rank_channels [] [chB, chA] ! 1) = Some 0 \<and>
   game_key [] (rank_channels [] [chB, chA] ! 0) = game_key [] (rank_channels [] [chB, chA] ! 1)"
  by (simp add: rank_eval)

text \<open>Claim C4, amended. The ranking is a permutation of the channel list in which, at
  positions \<open>i\<close> and \<open>j\<close>: a priority-flagged channel stands before a non-priority channel
  with the same game rank; within equal priority flag and game rank the channel with the
  higher viewer count stands first; and within equal priority flag and game rank a channel
  with viewer count 0 stands before a channel with unknown viewer count.\<close>

theorem channel_ranking_order:
  assumes i: "i < length (rank_channels gs xs)" and j: "j < length (rank_channels gs xs)"
    and g: "game_key gs (rank_channels gs xs ! i) = game_key gs (rank_channels gs xs ! j)"
  shows "mset (rank_channels gs xs) = mset xs \<and>
    (priority (rank_channels gs xs ! i) \<and> \<not> priority (rank_channels gs xs ! j) \<longrightarrow> i < j) \<and>
    (priority (rank_channels gs xs ! i) = priority (rank_channels gs xs ! j) \<and>
       viewers_key (rank_channels gs xs ! j) < viewers_key (rank_channels gs xs ! i)
       \<longrightarrow> i < j) \<and>
    (priority (rank_channels gs xs ! i) = priority (rank_channels gs xs ! j) \<and>
       viewers (rank_channels gs xs ! i) = Some 0 \<and> viewers (rank_channels gs xs ! j) = None
       \<longrightarrow> i < j)"
proof -
  have m: "mset (rank_channels gs xs) = mset xs"
    by (simp add: rank_channels_def)
  have p: "priority (rank_channels gs xs ! i) \<and> \<not> priority (rank_channels gs xs ! j) \<longrightarrow> i < j"
    using rank_priority_index [OF i j g] by blast
  have v: "priority (rank_channels gs xs ! i) = priority (rank_channels gs xs ! j) \<and>
         viewers_key (rank_channels gs xs ! j) < viewers_key (rank_channels gs xs ! i)
         \<longrightarrow> i < j"
    using rank_viewers_index [OF i j g] by blast
  have z: "priority (rank_channels gs xs ! i) = priority (rank_channels gs xs ! j) \<and>
         viewers (rank_channels gs xs ! i) = Some 0 \<and> viewers (rank_channels gs xs ! j) = None
         \<longrightarrow> i < j"
    using v by (simp add: viewers_key_def)
  from m p v z show ?thesis by blast
qed

theorem channel_ranking_order_witness:
  "rank_channels [] [chC, chB, chA] = [chA, chB, chC] \<and>
   priority chA \<and> \<not> priority chB \<and> priority chB = priority chC \<and>
   viewers chB = Some 0 \<and> viewers chC = None \<and>
   game_key [] chA = game_key [] chB \<and> game_key [] chB = game_key [] chC \<and>
   (0::nat) < 1 \<and> (1::nat) < 2"
  using channel_ranking_order [of 0 "[]" "[chC, chB, chA]" 1]
        channel_ranking_order [of 1 "[]" "[chC, chB, chA]" 2]
  by (simp add: rank_eval)

section \<open>Capacity bound of the channel set\<close>

lemma od_set_fresh: "k \<notin> fst ` set od \<Longrightarrow> od_set k v od = od @ [(k, v)]"
  by (induction od) auto

lemma foldl_od_set_distinct:
  "distinct (map fst od @ map f xs) \<Longrightarrow>
   foldl (\<lambda>od x. od_set (f x) x od) od xs = od @ map (\<lambda>x. (f x, x)) xs"
proof (induction xs arbitrary: od)
  case Nil
  then show ?case by simp
next
  case (Cons x xs)
  have fresh: "f x \<notin> fst ` set od" using Cons.prems by auto
  have "distinct (map fst (od @ [(f x, x)]) @ map f xs)" using Cons.prems by auto
  from Cons.IH [OF this] show ?case by (simp add: od_set_fresh [OF fresh])
qed

lemma distinct_ids_rank:
  "distinct (map ch_id xs) \<Longrightarrow> distinct (map ch_id (rank_channels gs xs))"
proof -
  assume d: "distinct (map ch_id xs)"
  have "mset (map ch_id (rank_channels gs xs)) = mset (map ch_id xs)"
    by (simp add: rank_channels_def)
  then show ?thesis using d by (metis mset_eq_imp_distinct_iff)
qed

lemma slice_nonneg:
  "0 \<le> k \<Longrightarrow> py_slice_to xs k = take (nat k) xs \<and> py_slice_from xs k = drop (nat k) xs"
  by (auto simp: py_slice_to_def py_slice_from_def Let_def min_def)

lemma build_channels:
  "distinct (map ch_id ys) \<Longrightarrow>
   foldl (\<lambda>od ch. od_set (ch_id ch) ch od) [] ys = map (\<lambda>c. (ch_id c, c)) ys"
  using foldl_od_set_distinct [of "[]" ch_id ys] by simp

lemma channels_fetch_commit_eq:
  assumes cap: "2 \<le> MW * TL" and d: "distinct (map ch_id cands)"
  shows "channels (channels_fetch_commit MW TL cands t)
           = map (\<lambda>c. (ch_id c, c)) (take (nat (MW * TL - 2)) (rank_channels (games t) cands))"
    and "topics (channels_fetch_commit MW TL cands t)
           = (topics t - ch_id ` set (drop (nat (MW * TL - 2)) (rank_channels (games t) cands)))
             \<union> ch_id ` set (take (nat (MW * TL - 2)) (rank_channels (games t) cands))"
proof -
  let ?R = "rank_channels (games t) cands"
  let ?B = "nat (MW * TL - 2)"
  have s: "py_slice_to ?R (MW * TL - 2) = take ?B ?R" "py_slice_from ?R (MW * TL - 2) = drop ?B ?R"
    using slice_nonneg [of "MW * TL - 2" ?R] cap by simp_all
  have dR: "distinct (map ch_id ?R)" by (rule distinct_ids_rank [OF d])
  then have "distinct (map ch_id (take ?B ?R))"
    by (simp add: take_map [symmetric])
  then have f: "foldl (\<lambda>od ch. od_set (ch_id ch) ch od) [] (py_slice_to ?R (MW * TL - 2))
              = map (\<lambda>c. (ch_id c, c)) (take ?B ?R)"
    by (simp only: s build_channels)
  have ch: "channels (channels_fetch_commit MW TL cands t)
              = foldl (\<lambda>od ch. od_set (ch_id ch) ch od) [] (py_slice_to ?R (MW * TL - 2))"
    by (simp add: channels_fetch_commit_def Let_def)
  show "channels (channels_fetch_commit MW TL cands t) = map (\<lambda>c. (ch_id c, c)) (take ?B ?R)"
    by (simp only: ch f)
  have tp: "topics (channels_fetch_commit MW TL cands t)
      = add_topics (map fst (foldl (\<lambda>od ch. od_set (ch_id ch) ch od) []
                               (py_slice_to ?R (MW * TL - 2))))
          (if py_slice_from ?R (MW * TL - 2) \<noteq> []
           then remove_topics (map ch_id (py_slice_from ?R (MW * TL - 2))) (topics t)
           else topics t)"
    by (simp add: channels_fetch_commit_def Let_def)
  have ids: "set (map fst (map (\<lambda>c. (ch_id c, c)) (take ?B ?R))) = ch_id ` set (take ?B ?R)"
    by (simp add: image_image)
  have rm: "(if drop ?B ?R \<noteq> [] then remove_topics (map ch_id (drop ?B ?R)) (topics t)
             else topics t) = topics t - ch_id ` set (drop ?B ?R)"
    by (simp add: remove_topics_def)
  show "topics (channels_fetch_commit MW TL cands t)
           = (topics t - ch_id ` set (drop ?B ?R)) \<union> ch_id ` set (take ?B ?R)"
    unfolding tp f s(2) rm add_topics_def ids ..
qed

lemma take_drop_ids_disjoint:
  "distinct (map f xs) \<Longrightarrow> f ` set (take n xs) \<inter> f ` set (drop n xs) = {}"
proof -
  assume "distinct (map f xs)"
  then have "distinct (map f (take n xs) @ map f (drop n xs))"
    by (simp add: take_map [symmetric] drop_map [symmetric])
  then show ?thesis by auto
qed

text \<open>Claim C5. With \<open>N\<close> distinct candidate channels and a topic budget
  \<open>B = MAX_WEBSOCKETS * WS_TOPICS_LIMIT - 2\<close> that is not negative, \<open>CHANNELS_FETCH\<close>
  retains exactly the first \<open>min N B\<close> channels of the ranking in \<open>self.channels\<close>, in
  ranking order and keyed by their identifiers; every retained channel's stream-state
  topic is subscribed and every truncated channel's topic is not; and when the topics
  subscribed before belong to candidate channels, the subscribed stream-state topics are
  exactly those of the \<open>min N B\<close> retained channels.\<close>

theorem capacity_bound:
  assumes cap: "2 \<le> MW * TL" and d: "distinct (map ch_id cands)"
  shows "map snd (channels (channels_fetch_commit MW TL cands t))
           = take (nat (MW * TL - 2)) (rank_channels (games t) cands) \<and>
         map fst (channels (channels_fetch_commit MW TL cands t))
           = map ch_id (take (nat (MW * TL - 2)) (rank_channels (games t) cands)) \<and>
         length (channels (channels_fetch_commit MW TL cands t))
           = min (length cands) (nat (MW * TL - 2)) \<and>
         (\<forall>c \<in> set (take (nat (MW * TL - 2)) (rank_channels (games t) cands)).
            ch_id c \<in> topics (channels_fetch_commit MW TL cands t)) \<and>
         (\<forall>c \<in> set (drop (nat (MW * TL - 2)) (rank_channels (games t) cands)).
            ch_id c \<notin> topics (channels_fetch_commit MW TL cands t)) \<and>
         (topics t \<subseteq> ch_id ` set cands \<longrightarrow>
            topics (channels_fetch_commit MW TL cands t)
              = ch_id ` set (take (nat (MW * TL - 2)) (rank_channels (games t) cands)) \<and>
            card (topics (channels_fetch_commit MW TL cands t))
              = min (length cands) (nat (MW * TL - 2)))"
proof -
  let ?R = "rank_channels (games t) cands"
  let ?B = "nat (MW * TL - 2)"
  let ?t = "channels_fetch_commit MW TL cands t"
  note e = channels_fetch_commit_eq [OF cap d, of t]
  have len: "length ?R = length cands"
    by (simp add: rank_channels_def py_sorted_def py_sorted_rev_def)
  have setR: "set ?R = set cands"
    by (simp add: rank_channels_def py_sorted_def py_sorted_rev_def)
  have dR: "distinct (map ch_id ?R)" by (rule distinct_ids_rank [OF d])
  have disj: "ch_id ` set (take ?B ?R) \<inter> ch_id ` set (drop ?B ?R) = {}"
    by (rule take_drop_ids_disjoint [OF dR])
  have un: "ch_id ` set (take ?B ?R) \<union> ch_id ` set (drop ?B ?R) = ch_id ` set cands"
    by (metis append_take_drop_id image_Un setR set_append)
  have c1: "map snd (channels ?t) = take ?B ?R"
    by (simp add: e(1) comp_def)
  have c2: "map fst (channels ?t) = map ch_id (take ?B ?R)"
    by (simp add: e(1) comp_def)
  have c3: "length (channels ?t) = min (length cands) ?B"
    by (simp add: e(1) len)
  have c4: "\<forall>c \<in> set (take ?B ?R). ch_id c \<in> topics ?t"
    by (simp add: e(2))
  have c5: "\<forall>c \<in> set (drop ?B ?R). ch_id c \<notin> topics ?t"
    using disj by (auto simp: e(2))
  have c6: "topics t \<subseteq> ch_id ` set cands \<longrightarrow>
            topics ?t = ch_id ` set (take ?B ?R) \<and> card (topics ?t) = min (length cands) ?B"
  proof
    assume sub: "topics t \<subseteq> ch_id ` set cands"
    have eq: "topics ?t = ch_id ` set (take ?B ?R)"
      using sub un disj by (auto simp: e(2))
    have "distinct (map ch_id (take ?B ?R))"
      using dR by (simp add: take_map [symmetric])
    then have "card (set (map ch_id (take ?B ?R))) = length (map ch_id (take ?B ?R))"
      by (rule distinct_card)
    then have "card (ch_id ` set (take ?B ?R)) = min (length cands) ?B"
      by (simp add: len)
    with eq show "topics ?t = ch_id ` set (take ?B ?R) \<and> card (topics ?t) = min (length cands) ?B"
      by simp
  qed
  from c1 c2 c3 c4 c5 c6 show ?thesis by blast
qed

theorem capacity_bound_witness:
  "(2::int) \<le> 2 * 2 \<and> distinct (map ch_id [chC, chB, chA]) \<and>
   map snd (channels (channels_fetch_commit 2 2 [chC, chB, chA] tw1)) = [chA, chB] \<and>
   topics tw1 \<subseteq> ch_id ` set [chC, chB, chA] \<and>
   topics (channels_fetch_commit 2 2 [chC, chB, chA] tw1) = {1, 2}"
  using capacity_bound [of 2 2 "[chC, chB, chA]" tw1]
  by (simp add: rank_eval tw1_def twitch0_def insert_commute)

section \<open>Choice of the channel to watch\<close>

lemma first_watchable_find:
  "first_watchable P xs (None, cv) =
     (case find P xs of
        None \<Rightarrow> (None, if xs = [] then cv else Some (last xs))
      | Some c \<Rightarrow> (Some c, Some c))"
  by (induction xs arbitrary: cv) (auto split: option.splits)

lemma can_watch_selection [simp]:
  "can_watch api (t\<lparr>selection := s\<rparr>) = can_watch api t"
  by (rule ext) (simp add: can_watch_def split: option.splits)

lemma selection_clear_id: "selection t = None \<Longrightarrow> t\<lparr>selection := None\<rparr> = t"
  by (cases t) simp

lemma first_watchable_append:
  "first_watchable P (xs @ ys) (None, cv) =
     (if fst (first_watchable P xs (None, cv)) = None
      then first_watchable P ys (first_watchable P xs (None, cv))
      else first_watchable P xs (None, cv))"
  by (induction xs arbitrary: cv) simp_all

lemma channel_switch_eq:
  "channel_switch api t cv =
     (case first_watchable (can_watch api t) (switch_candidates t) (None, cv) of
        (None, cv') \<Rightarrow> Inr (change_state (t\<lparr>selection := None\<rparr>) IDLE, cv')
      | (Some c, None) \<Rightarrow> Inl UnboundLocalError
      | (Some c, Some channel) \<Rightarrow>
          Inr ((watch (t\<lparr>selection := None\<rparr>) channel)\<lparr>state_change := False\<rparr>, Some channel))"
proof -
  let ?P = "can_watch api t"
  let ?pc = "(case selection t of None \<Rightarrow> [] | Some s \<Rightarrow> [s])
     @ (case watching_channel t of None \<Rightarrow> [] | Some w \<Rightarrow> [w])"
  let ?srt = "py_sorted (game_key (games t)) (map snd (channels t))"
  let ?t1 = "case selection t of None \<Rightarrow> t | Some s \<Rightarrow> t\<lparr>selection := None\<rparr>"
  have t1: "?t1 = t\<lparr>selection := None\<rparr>"
    by (simp add: selection_clear_id split: option.splits)
  have pc: "(case watching_channel ?t1 of
               None \<Rightarrow> (case selection t of None \<Rightarrow> [] | Some s \<Rightarrow> [s])
             | Some w \<Rightarrow> (case selection t of None \<Rightarrow> [] | Some s \<Rightarrow> [s]) @ [w]) = ?pc"
    by (simp add: t1 split: option.splits)
  have cands: "switch_candidates t = ?pc @ ?srt"
    by (simp add: switch_candidates_def)
  define r2 where "r2 = first_watchable ?P (?pc @ ?srt) (None, cv)"
  have r2: "(if fst (first_watchable ?P ?pc (None, cv)) = None
             then first_watchable ?P ?srt (first_watchable ?P ?pc (None, cv))
             else first_watchable ?P ?pc (None, cv)) = r2"
    unfolding r2_def by (rule first_watchable_append [symmetric])
  have "channel_switch api t cv =
     (if fst r2 \<noteq> None
      then (case snd r2 of
              None \<Rightarrow> Inl UnboundLocalError
            | Some channel \<Rightarrow>
                Inr ((watch (t\<lparr>selection := None\<rparr>) channel)\<lparr>state_change := False\<rparr>, snd r2))
      else Inr (change_state (t\<lparr>selection := None\<rparr>) IDLE, snd r2))"
  proof -
    have g: "games (t\<lparr>selection := None\<rparr>) = games t"
      and c: "channels (t\<lparr>selection := None\<rparr>) = channels t" by simp_all
    show ?thesis
      unfolding channel_switch_def Let_def pc unfolding t1
      by (simp only: can_watch_selection g c r2)
  qed
  also have "\<dots> = (case r2 of
        (None, cv') \<Rightarrow> Inr (change_state (t\<lparr>selection := None\<rparr>) IDLE, cv')
      | (Some c, None) \<Rightarrow> Inl UnboundLocalError
      | (Some c, Some channel) \<Rightarrow>
          Inr ((watch (t\<lparr>selection := None\<rparr>) channel)\<lparr>state_change := False\<rparr>, Some channel))"
    by (cases r2) (simp split: option.splits)
  finally show ?thesis by (simp only: r2_def cands)
qed

lemma channel_switch_found:
  assumes "find (can_watch api t) (switch_candidates t) = Some ch"
  shows "channel_switch api t cv
           = Inr (t\<lparr>selection := None, watching_channel := Some ch, state_change := False\<rparr>,
                  Some ch)"
  by (simp add: channel_switch_eq first_watchable_find assms watch_def)

lemma channel_switch_none:
  assumes "find (can_watch api t) (switch_candidates t) = None"
  shows "\<exists>cv'. channel_switch api t cv = Inr (change_state (t\<lparr>selection := None\<rparr>) IDLE, cv')"
  by (simp add: channel_switch_eq first_watchable_find assms)

text \<open>Claim C6. In the \<open>CHANNEL_SWITCH\<close> state the candidates are tried in the order:
  selected channel, watched channel, active channels sorted stably by game rank. The first
  watchable candidate becomes the watched channel (the channel passed to \<open>watch\<close> is that
  candidate), the selection is consumed and the state-change flag is cleared with the state
  left as it is; when no candidate is watchable the selection is consumed all the same and
  the state becomes \<open>IDLE\<close> with the flag set.\<close>

theorem channel_switch_choice:
  assumes st: "t_state t = CHANNEL_SWITCH"
  shows "(find (can_watch api t) (switch_candidates t) = Some ch \<longrightarrow>
            channel_switch api t cv
              = Inr (t\<lparr>selection := None, watching_channel := Some ch, state_change := False\<rparr>,
                     Some ch)) \<and>
         (find (can_watch api t) (switch_candidates t) = None \<longrightarrow>
            (\<exists>cv'. channel_switch api t cv
              = Inr (t\<lparr>selection := None, t_state := IDLE, state_change := True\<rparr>, cv')))"
proof (intro conjI impI)
  assume "find (can_watch api t) (switch_candidates t) = Some ch"
  then show "channel_switch api t cv
      = Inr (t\<lparr>selection := None, watching_channel := Some ch, state_change := False\<rparr>, Some ch)"
    by (rule channel_switch_found)
next
  assume "find (can_watch api t) (switch_candidates t) = None"
  from channel_switch_none [OF this, of cv]
  obtain cv' where "channel_switch api t cv = Inr (change_state (t\<lparr>selection := None\<rparr>) IDLE, cv')"
    by blast
  moreover have "change_state (t\<lparr>selection := None\<rparr>) IDLE
      = t\<lparr>selection := None, t_state := IDLE, state_change := True\<rparr>"
    using st by (simp add: change_state_def)
  ultimately show "\<exists>cv'. channel_switch api t cv
      = Inr (t\<lparr>selection := None, t_state := IDLE, state_change := True\<rparr>, cv')"
    by simp
qed

lemmas switch_eval = tw_switch_def twitch0_def api1_def campG_def chG_def chOff_def gameG_def
  switch_candidates_def can_watch_def py_sorted_def game_key_def

theorem channel_switch_choice_witness:
  "t_state tw_switch = CHANNEL_SWITCH \<and>
   find (can_watch api1 tw_switch) (switch_candidates tw_switch) = Some chG \<and>
   channel_switch api1 tw_switch None
     = Inr (tw_switch\<lparr>selection := None, watching_channel := Some chG, state_change := False\<rparr>,
            Some chG) \<and>
   t_state (tw_switch\<lparr>games := []\<rparr>) = CHANNEL_SWITCH \<and>
   find (can_watch api1 (tw_switch\<lparr>games := []\<rparr>)) (switch_candidates (tw_switch\<lparr>games := []\<rparr>))
     = None \<and>
   (\<exists>cv'. channel_switch api1 (tw_switch\<lparr>games := []\<rparr>) None
     = Inr (tw_switch\<lparr>games := [], selection := None, t_state := IDLE, state_change := True\<rparr>,
            cv'))"
  using channel_switch_choice [of tw_switch api1 chG None]
        channel_switch_choice [of "tw_switch\<lparr>games := []\<rparr>" api1 chG None]
  by (simp add: switch_eval)

section \<open>The active drop is the candidate closest to completion\<close>

lemma earnable_drops_Cons:
  "earnable_drops api (t\<lparr>inventory := c # cs\<rparr>) wc keep
     = earnable_drops api (t\<lparr>inventory := [c]\<rparr>) wc keep
       @ earnable_drops api (t\<lparr>inventory := cs\<rparr>) wc keep"
  by (simp add: earnable_drops_def)

lemma active_drop_step_eq:
  "active_drop_step api t wc (case wc of None \<Rightarrow> None | Some w \<Rightarrow> ch_game w) (ds, ss) c
     = (ds @ earnable_drops api (t\<lparr>inventory := [c]\<rparr>) wc (\<lambda>c. True),
        ss @ earnable_drops api (t\<lparr>inventory := [c]\<rparr>) wc (same_game wc))"
proof (cases wc)
  case None
  then show ?thesis
    by (simp add: active_drop_step_def earnable_drops_def same_game_def Let_def)
next
  case (Some w)
  then show ?thesis
    by (cases "ch_game w")
       (auto simp add: active_drop_step_def earnable_drops_def same_game_def Let_def)
qed

lemma active_drop_loop:
  "foldl (active_drop_step api t wc (case wc of None \<Rightarrow> None | Some w \<Rightarrow> ch_game w))
         (ds, ss) cs
     = (ds @ earnable_drops api (t\<lparr>inventory := cs\<rparr>) wc (\<lambda>c. True),
        ss @ earnable_drops api (t\<lparr>inventory := cs\<rparr>) wc (same_game wc))"
proof (induction cs arbitrary: ds ss)
  case Nil
  then show ?case by (simp add: earnable_drops_def)
next
  case (Cons c cs)
  show ?case
    by (simp only: foldl_Cons active_drop_step_eq Cons.IH earnable_drops_Cons [of api c cs t]
        append_assoc)
qed

lemma inventory_self: "t\<lparr>inventory := inventory t\<rparr> = t"
  by (cases t) simp

lemma get_active_drop_eq:
  "get_active_drop api t channel =
     (if games t = [] then None
      else case py_sorted (\<lambda>d. remaining_minutes api (heap t d)) (drop_candidates api t channel) of
             [] \<Rightarrow> None
           | d # ds \<Rightarrow> Some d)"
proof -
  let ?wc = "get_with_default (watching_channel t) channel"
  have wc: "?wc = (case watching_channel t of Some w \<Rightarrow> Some w | None \<Rightarrow> channel)"
    by (simp add: get_with_default_def)
  have loop: "foldl (active_drop_step api t ?wc (case ?wc of None \<Rightarrow> None | Some w \<Rightarrow> ch_game w))
                ([], []) (inventory t)
      = (earnable_drops api t ?wc (\<lambda>c. True), earnable_drops api t ?wc (same_game ?wc))"
    using active_drop_loop [of api t ?wc "[]" "[]" "inventory t"]
    by (simp add: inventory_self)
  have cands: "drop_candidates api t channel
      = (if earnable_drops api t ?wc (same_game ?wc) \<noteq> []
         then earnable_drops api t ?wc (same_game ?wc)
         else earnable_drops api t ?wc (\<lambda>c. True))"
    by (simp add: drop_candidates_def wc Let_def)
  have empty: "py_sorted k [] = []" for k :: "addr \<Rightarrow> int"
    by (simp add: py_sorted_def)
  show ?thesis
    unfolding get_active_drop_def Let_def loop cands fst_conv snd_conv
    by (simp add: empty)
qed

lemma sort_key_head_min:
  assumes "sort_key k xs = d # ds"
  shows "d \<in> set xs \<and> (\<forall>x \<in> set xs. k d \<le> k x) \<and> find (\<lambda>x. k x = k d) xs = Some d"
proof -
  have s: "sorted (map k (d # ds))" using assms by (metis sorted_sort_key)
  have m: "set (d # ds) = set xs" using assms by (metis set_sort)
  have 1: "d \<in> set xs" using m by auto
  have 2: "\<forall>x \<in> set xs. k d \<le> k x" using s m by auto
  have "filter (\<lambda>x. k x = k d) xs = filter (\<lambda>x. k x = k d) (d # ds)"
    using assms by (metis sort_key_stable)
  then have f: "filter (\<lambda>x. k x = k d) xs = d # filter (\<lambda>x. k x = k d) ds" by simp
  have 3: "find (\<lambda>x. k x = k d) xs = Some d"
    using f by (induction xs) (auto split: if_splits)
  from 1 2 3 show ?thesis by blast
qed

text \<open>Claim C10. \<open>get_active_drop\<close> returns \<open>None\<close> when the eligible-games mapping is
  empty and when there is no candidate. Otherwise it returns a candidate whose remaining
  minutes are the fewest of all candidates, the first such candidate in inventory order.
  The candidates are the drops earnable on the watched channel (the argument channel when
  nothing is watched) from campaigns with an eligible game that can be progressed on it,
  restricted to the campaigns of that channel's game whenever this leaves a drop.\<close>

theorem active_drop_choice:
  "(games t = [] \<longrightarrow> get_active_drop api t channel = None) \<and>
   (games t \<noteq> [] \<and> drop_candidates api t channel = [] \<longrightarrow>
      get_active_drop api t channel = None) \<and>
   (games t \<noteq> [] \<and> drop_candidates api t channel \<noteq> [] \<longrightarrow>
      (\<exists>d. get_active_drop api t channel = Some d \<and>
           d \<in> set (drop_candidates api t channel) \<and>
           (\<forall>x \<in> set (drop_candidates api t channel).
              remaining_minutes api (heap t d) \<le> remaining_minutes api (heap t x)) \<and>
           find (\<lambda>x. remaining_minutes api (heap t x) = remaining_minutes api (heap t d))
             (drop_candidates api t channel) = Some d))"
proof (intro conjI impI)
  assume "games t = []"
  then show "get_active_drop api t channel = None" by (simp add: get_active_drop_eq)
next
  assume "games t \<noteq> [] \<and> drop_candidates api t channel = []"
  then show "get_active_drop api t channel = None"
    by (simp add: get_active_drop_eq py_sorted_def)
next
  let ?k = "\<lambda>d. remaining_minutes api (heap t d)"
  let ?cs = "drop_candidates api t channel"
  assume a: "games t \<noteq> [] \<and> ?cs \<noteq> []"
  then have "sort_key ?k ?cs \<noteq> []"
    by (metis length_sort list.size(3) length_0_conv)
  then obtain d ds where srt: "sort_key ?k ?cs = d # ds" by (cases "sort_key ?k ?cs") auto
  have res: "get_active_drop api t channel = Some d"
    using a srt by (simp add: get_active_drop_eq py_sorted_def)
  from sort_key_head_min [OF srt] res
  show "\<exists>d. get_active_drop api t channel = Some d \<and> d \<in> set ?cs \<and>
           (\<forall>x \<in> set ?cs. ?k d \<le> ?k x) \<and> find (\<lambda>x. ?k x = ?k d) ?cs = Some d"
    by blast
qed

theorem active_drop_choice_witness:
  "games tw_drops \<noteq> [] \<and> drop_candidates api1 tw_drops (Some chG) = [0, 1] \<and>
   get_active_drop api1 tw_drops (Some chG) = Some 1 \<and>
   games twitch0 = [] \<and> get_active_drop api1 twitch0 (Some chG) = None \<and>
   games (tw_drops\<lparr>inventory := []\<rparr>) \<noteq> [] \<and>
   drop_candidates api1 (tw_drops\<lparr>inventory := []\<rparr>) (Some chG) = [] \<and>
   get_active_drop api1 (tw_drops\<lparr>inventory := []\<rparr>) (Some chG) = None"
proof -
  have g: "games tw_drops \<noteq> []" by (simp add: tw_drops_def)
  have c: "drop_candidates api1 tw_drops (Some chG) = [0, 1]"
    by (simp add: tw_drops_def twitch0_def api1_def campG_def chG_def gameG_def
        drop_candidates_def earnable_drops_def same_game_def)
  have r0: "remaining_minutes api1 (heap tw_drops 0) = 50"
    and r1: "remaining_minutes api1 (heap tw_drops 1) = 20"
    by (simp_all add: tw_drops_def api1_def)
  from active_drop_choice [of tw_drops api1 "Some chG"] g c
  obtain d where d: "get_active_drop api1 tw_drops (Some chG) = Some d" "d \<in> set [0, 1]"
      "\<forall>x \<in> set [0, 1]. remaining_minutes api1 (heap tw_drops d)
          \<le> remaining_minutes api1 (heap tw_drops x)"
    by auto
  have "d \<noteq> 0"
  proof
    assume "d = 0"
    with d(3) have "remaining_minutes api1 (heap tw_drops 0)
        \<le> remaining_minutes api1 (heap tw_drops 1)" by simp
    with r0 r1 show False by simp
  qed
  with d(2) have "d = 1" by simp
  with d(1) have a: "get_active_drop api1 tw_drops (Some chG) = Some 1" by simp
  have e: "games twitch0 = []" by (simp add: twitch0_def)
  with active_drop_choice [of twitch0 api1 "Some chG"]
  have n: "get_active_drop api1 twitch0 (Some chG) = None" by blast
  have g3: "games (tw_drops\<lparr>inventory := []\<rparr>) \<noteq> []" by (simp add: tw_drops_def)
  have c3: "drop_candidates api1 (tw_drops\<lparr>inventory := []\<rparr>) (Some chG) = []"
    by (simp add: drop_candidates_def earnable_drops_def)
  from active_drop_choice [of "tw_drops\<lparr>inventory := []\<rparr>" api1 "Some chG"] g3 c3
  have n3: "get_active_drop api1 (tw_drops\<lparr>inventory := []\<rparr>) (Some chG) = None" by blast
  from g c a e n g3 c3 n3 show ?thesis by blast
qed

section \<open>Games collected by GAMES_UPDATE\<close>

lemma collect_game_off:
  "\<not> s_priority_only st \<Longrightarrow> collect_game api st priorities h gs campaign = gs"
  by (simp add: collect_game_def)

lemma collect_games_off:
  "\<not> s_priority_only st \<Longrightarrow> foldl (collect_game api st priorities h) gs cs = gs"
  by (induction cs arbitrary: gs) (simp_all add: collect_game_off)

lemma state_games_update_priority_only_off:
  "\<not> s_priority_only st \<Longrightarrow> games (fst (state_games_update api st priorities t)) = []"
  by (simp add: state_games_update_def Let_def collect_games_off change_state_def)

lemma collect_games_keys:
  "fst ` set (foldl (collect_game api st priorities h) gs cs)
     = fst ` set gs \<union>
       {c_game c | c. c \<in> set cs \<and> s_priority_only st \<and> g_name (c_game c) \<in> set (s_priority st)
           \<and> g_name (c_game c) \<notin> set (s_exclude st) \<and> campaign_can_earn api h c None}"
proof (induction cs arbitrary: gs)
  case Nil
  then show ?case by simp
next
  case (Cons c cs)
  show ?case
    unfolding foldl_Cons Cons.IH
    by (auto simp: collect_game_def Let_def)
qed

text \<open>Claim C1 fails on the code. With priority-only mode off, the campaign of game \<open>G\<close>,
  which is not excluded and can be progressed, does not get its game recorded:
  \<open>GAMES_UPDATE\<close> leaves the eligible-games mapping empty.\<close>

theorem games_update_drops_unprioritised_game:
  "\<not> s_priority_only settings_off \<and>
   campG \<in> set (inventory tw_drops) \<and>
   g_name (c_game campG) \<notin> set (s_exclude settings_off) \<and>
   campaign_can_earn api1 (heap (fst (state_games_update api1 settings_off [] tw_drops))) campG None \<and>
   games (fst (state_games_update api1 settings_off [] tw_drops)) = []"
  by (simp add: state_games_update_def Let_def collect_game_def claim_drops_def change_state_def
      settings_off_def tw_drops_def twitch0_def api1_def campG_def)

section \<open>The fallback ladder of the watch loop\<close>

lemma active_drop_step_pending:
  "active_drop_step api (t\<lparr>drop_update_pending := b\<rparr>) = active_drop_step api t"
  by (intro ext) (simp add: active_drop_step_def)

lemma get_active_drop_pending [simp]:
  "get_active_drop api (t\<lparr>drop_update_pending := b\<rparr>) channel = get_active_drop api t channel"
  by (simp add: get_active_drop_def active_drop_step_pending Let_def)

lemma get_with_default_None [simp]: "get_with_default c None = c"
  by (cases c) (simp_all add: get_with_default_def)

lemma watch_cycle_event_matches:
  assumes "event = Some (i, m)" "map_of (drops_index t) i = Some a"
    "drop_can_earn api (heap t) a (watching_channel t)"
  shows "watch_cycle api t channel event drop_data
     = (t\<lparr>heap := (heap t)(a := update_minutes (heap t a) m), drop_update_pending := False\<rparr>,
        [UpdateMinutes a m])"
  using assms by (simp add: watch_cycle_def process_drops_progress_def Let_def)

lemma watch_cycle_timeout:
  assumes "event = None"
  shows "watch_cycle api t channel event drop_data
     = (case get_active_drop api t (Some channel) of
          Some d \<Rightarrow> (t\<lparr>heap := (heap t)(d := bump_minutes (heap t d)),
                       drop_update_pending := False\<rparr>, [BumpMinutes d])
        | None \<Rightarrow> (t\<lparr>drop_update_pending := False\<rparr>, [LogError]))"
  using assms by (simp add: watch_cycle_def bump_active_drop_def Let_def split: option.splits)

lemma watch_cycle_mismatch:
  assumes "event = Some (i, m)" "event_mismatch api t i"
  shows "watch_cycle api t channel event drop_data
     = (let p = poll_current_drop api (t\<lparr>drop_update_pending := False\<rparr>) channel drop_data;
            b = (if fst (snd p) then bump_active_drop api (fst p) channel else (fst p, []))
        in (fst b, snd (snd p) @ snd b))"
  using assms
  by (simp add: watch_cycle_def process_drops_progress_def event_mismatch_def Let_def
      split: option.splits)

lemma poll_match:
  assumes "map_of (drops_index t) j = Some a" "drop_can_earn api (heap t) a (Some channel)"
  shows "poll_current_drop api (t\<lparr>drop_update_pending := False\<rparr>) channel (Some (j, n))
     = (t\<lparr>heap := (heap t)(a := update_minutes (heap t a) n), drop_update_pending := False\<rparr>,
        False, [GqlCurrentDrop, UpdateMinutes a n])"
  using assms by (simp add: poll_current_drop_def)

lemma poll_no_match:
  assumes "poll_mismatch api t channel j"
  shows "poll_current_drop api (t\<lparr>drop_update_pending := False\<rparr>) channel (Some (j, n))
     = (t\<lparr>drop_update_pending := False\<rparr>, True,
        GqlCurrentDrop # (if map_of (drops_index t) j = None then [LogError] else []))"
proof (cases "map_of (drops_index t) j")
  case None
  then show ?thesis by (simp add: poll_current_drop_def)
next
  case (Some a)
  with assms have "\<not> drop_can_earn api (heap t) a (Some channel)"
    by (simp add: poll_mismatch_def)
  with Some show ?thesis by (simp add: poll_current_drop_def)
qed

lemma bump_active_drop_Some:
  assumes "get_active_drop api t (Some channel) = Some b"
  shows "bump_active_drop api (t\<lparr>drop_update_pending := False\<rparr>) channel
     = (t\<lparr>heap := (heap t)(b := bump_minutes (heap t b)), drop_update_pending := False\<rparr>,
        [BumpMinutes b])"
  using assms by (simp add: bump_active_drop_def)

text \<open>When the query reports no current drop session at all, nothing is applied and nothing
  is bumped.\<close>

lemma watch_cycle_poll_null:
  assumes "event = Some (i, m)" "event_mismatch api t i"
  shows "watch_cycle api t channel event None
     = (t\<lparr>drop_update_pending := False\<rparr>, [GqlCurrentDrop])"
  unfolding watch_cycle_mismatch [OF assms] by (simp add: poll_current_drop_def)

lemma tw_drops_active: "get_active_drop api1 tw_drops (Some chG) = Some 1"
  by (simp add: get_active_drop_eq py_sorted_def drop_candidates_def earnable_drops_def
      same_game_def tw_drops_def twitch0_def api1_def campG_def chG_def gameG_def)

text \<open>Claim C2, as stated, fails: when no push event arrives within the 10 seconds, no
  \<open>CurrentDrop\<close> query is issued at all. Here the query would have answered with the tracked,
  earnable drop \<open>d0\<close> at 25 minutes; the cycle leaves \<open>d0\<close> at 10 minutes and bumps the
  best candidate \<open>d1\<close> instead.\<close>

theorem timeout_skips_poll_counterexample:
  "map_of (drops_index tw_drops) ''d0'' = Some 0 \<and>
   drop_can_earn api1 (heap tw_drops) 0 (Some chG) \<and>
   GqlCurrentDrop \<notin> set (snd (watch_cycle api1 tw_drops chG None (Some (''d0'', 25)))) \<and>
   current_minutes (heap (fst (watch_cycle api1 tw_drops chG None (Some (''d0'', 25)))) 0) = 10 \<and>
   snd (watch_cycle api1 tw_drops chG None (Some (''d0'', 25))) = [BumpMinutes 1]"
  by (simp add: watch_cycle_timeout tw_drops_active) (simp add: tw_drops_def twitch0_def api1_def)

text \<open>Claim C2, amended. After a successful heartbeat the loop waits for the push-driven
  rendezvous. (1) A matching progress event applies the event's value; there is no query
  and no estimate. (2) A non-matching event makes the loop issue the \<open>CurrentDrop\<close> query,
  and the polled value is applied when the query names a tracked drop earnable on the
  watched channel. (3) When the query names an untracked or not earnable drop, the
  best-candidate drop's progress is bumped by exactly one minute. (4) When no event arrives
  in time, no query is issued and the best-candidate drop is bumped by one minute
  directly.\<close>

theorem watch_cycle_fallback:
  "(event = Some (i, m) \<and> map_of (drops_index t) i = Some a \<and>
      drop_can_earn api (heap t) a (watching_channel t) \<longrightarrow>
      watch_cycle api t channel event drop_data
        = (t\<lparr>heap := (heap t)(a := update_minutes (heap t a) m), drop_update_pending := False\<rparr>,
           [UpdateMinutes a m])) \<and>
   (event = Some (i, m) \<and> event_mismatch api t i \<and> drop_data = Some (j, n) \<and>
      map_of (drops_index t) j = Some a \<and> drop_can_earn api (heap t) a (Some channel) \<longrightarrow>
      watch_cycle api t channel event drop_data
        = (t\<lparr>heap := (heap t)(a := update_minutes (heap t a) n), drop_update_pending := False\<rparr>,
           [GqlCurrentDrop, UpdateMinutes a n])) \<and>
   (event = Some (i, m) \<and> event_mismatch api t i \<and> drop_data = Some (j, n) \<and>
      poll_mismatch api t channel j \<and> get_active_drop api t (Some channel) = Some b \<longrightarrow>
      watch_cycle api t channel event drop_data
        = (t\<lparr>heap := (heap t)(b := bump_minutes (heap t b)), drop_update_pending := False\<rparr>,
           GqlCurrentDrop # (if map_of (drops_index t) j = None then [LogError] else [])
             @ [BumpMinutes b]) \<and>
      current_minutes (heap (fst (watch_cycle api t channel event drop_data)) b)
        = current_minutes (heap t b) + 1) \<and>
   (event = None \<and> get_active_drop api t (Some channel) = Some b \<longrightarrow>
      watch_cycle api t channel event drop_data
        = (t\<lparr>heap := (heap t)(b := bump_minutes (heap t b)), drop_update_pending := False\<rparr>,
           [BumpMinutes b]) \<and>
      current_minutes (heap (fst (watch_cycle api t channel event drop_data)) b)
        = current_minutes (heap t b) + 1)"
proof (intro conjI impI)
  assume "event = Some (i, m) \<and> map_of (drops_index t) i = Some a \<and>
      drop_can_earn api (heap t) a (watching_channel t)"
  then show "watch_cycle api t channel event drop_data
        = (t\<lparr>heap := (heap t)(a := update_minutes (heap t a) m), drop_update_pending := False\<rparr>,
           [UpdateMinutes a m])"
    by (simp add: watch_cycle_event_matches)
next
  assume h: "event = Some (i, m) \<and> event_mismatch api t i \<and> drop_data = Some (j, n) \<and>
      map_of (drops_index t) j = Some a \<and> drop_can_earn api (heap t) a (Some channel)"
  then have e: "event = Some (i, m)" and mm: "event_mismatch api t i"
    and dd: "drop_data = Some (j, n)" and tr: "map_of (drops_index t) j = Some a"
    and ce: "drop_can_earn api (heap t) a (Some channel)" by simp_all
  show "watch_cycle api t channel event drop_data
        = (t\<lparr>heap := (heap t)(a := update_minutes (heap t a) n), drop_update_pending := False\<rparr>,
           [GqlCurrentDrop, UpdateMinutes a n])"
    unfolding watch_cycle_mismatch [OF e mm] dd poll_match [OF tr ce] Let_def
    by simp
next
  assume h: "event = Some (i, m) \<and> event_mismatch api t i \<and> drop_data = Some (j, n) \<and>
      poll_mismatch api t channel j \<and> get_active_drop api t (Some channel) = Some b"
  then have e: "event = Some (i, m)" and mm: "event_mismatch api t i"
    and dd: "drop_data = Some (j, n)" and pm: "poll_mismatch api t channel j"
    and ad: "get_active_drop api t (Some channel) = Some b" by simp_all
  show w: "watch_cycle api t channel event drop_data
        = (t\<lparr>heap := (heap t)(b := bump_minutes (heap t b)), drop_update_pending := False\<rparr>,
           GqlCurrentDrop # (if map_of (drops_index t) j = None then [LogError] else [])
             @ [BumpMinutes b])"
    unfolding watch_cycle_mismatch [OF e mm] dd poll_no_match [OF pm] Let_def
    by (simp add: bump_active_drop_Some [OF ad])
  show "current_minutes (heap (fst (watch_cycle api t channel event drop_data)) b)
        = current_minutes (heap t b) + 1"
    unfolding w by (simp add: bump_minutes_def)
next
  assume h: "event = None \<and> get_active_drop api t (Some channel) = Some b"
  then show w: "watch_cycle api t channel event drop_data
        = (t\<lparr>heap := (heap t)(b := bump_minutes (heap t b)), drop_update_pending := False\<rparr>,
           [BumpMinutes b])"
    by (simp add: watch_cycle_timeout)
  then show "current_minutes (heap (fst (watch_cycle api t channel event drop_data)) b)
        = current_minutes (heap t b) + 1"
    by (simp add: bump_minutes_def)
qed

theorem watch_cycle_fallback_witness:
  "map_of (drops_index tw_drops) ''d0'' = Some 0 \<and>
   drop_can_earn api1 (heap tw_drops) 0 (watching_channel tw_drops) \<and>
   snd (watch_cycle api1 tw_drops chG (Some (''d0'', 42)) None) = [UpdateMinutes 0 42] \<and>
   event_mismatch api1 tw_drops ''zz'' \<and> drop_can_earn api1 (heap tw_drops) 0 (Some chG) \<and>
   snd (watch_cycle api1 tw_drops chG (Some (''zz'', 3)) (Some (''d0'', 25)))
     = [GqlCurrentDrop, UpdateMinutes 0 25] \<and>
   poll_mismatch api1 tw_drops chG ''yy'' \<and>
   get_active_drop api1 tw_drops (Some chG) = Some 1 \<and>
   snd (watch_cycle api1 tw_drops chG (Some (''zz'', 3)) (Some (''yy'', 7)))
     = [GqlCurrentDrop, LogError, BumpMinutes 1] \<and>
   snd (watch_cycle api1 tw_drops chG None None) = [BumpMinutes 1] \<and>
   current_minutes (heap (fst (watch_cycle api1 tw_drops chG None None)) 1) = 11"
proof -
  have d0: "map_of (drops_index tw_drops) ''d0'' = Some 0"
    and yy: "map_of (drops_index tw_drops) ''yy'' = None"
    and ce: "drop_can_earn api1 (heap tw_drops) 0 (watching_channel tw_drops)"
    and ce': "drop_can_earn api1 (heap tw_drops) 0 (Some chG)"
    and cm: "current_minutes (heap tw_drops 1) = 10"
    by (simp_all add: tw_drops_def api1_def)
  have em: "event_mismatch api1 tw_drops ''zz''"
    by (simp add: event_mismatch_def tw_drops_def)
  have pm: "poll_mismatch api1 tw_drops chG ''yy''"
    by (simp add: poll_mismatch_def yy)
  note ad = tw_drops_active
  have c1: "snd (watch_cycle api1 tw_drops chG (Some (''d0'', 42)) None) = [UpdateMinutes 0 42]"
    using watch_cycle_fallback [where event = "Some (''d0'', 42)" and i = "''d0''" and m = 42
        and t = tw_drops and a = 0 and api = api1 and channel = chG and drop_data = None]
      d0 ce by simp
  have c2: "snd (watch_cycle api1 tw_drops chG (Some (''zz'', 3)) (Some (''d0'', 25)))
      = [GqlCurrentDrop, UpdateMinutes 0 25]"
    using watch_cycle_fallback [where event = "Some (''zz'', 3)" and i = "''zz''" and m = 3
        and t = tw_drops and a = 0 and api = api1 and channel = chG
        and drop_data = "Some (''d0'', 25)" and j = "''d0''" and n = 25]
      em d0 ce' by simp
  have c3: "snd (watch_cycle api1 tw_drops chG (Some (''zz'', 3)) (Some (''yy'', 7)))
      = [GqlCurrentDrop, LogError, BumpMinutes 1]"
    using watch_cycle_fallback [where event = "Some (''zz'', 3)" and i = "''zz''" and m = 3
        and t = tw_drops and api = api1 and channel = chG
        and drop_data = "Some (''yy'', 7)" and j = "''yy''" and n = 7 and b = 1]
      em pm ad yy by simp
  have c4: "snd (watch_cycle api1 tw_drops chG None None) = [BumpMinutes 1] \<and>
      current_minutes (heap (fst (watch_cycle api1 tw_drops chG None None)) 1) = 11"
    using watch_cycle_fallback [where event = None and t = tw_drops and api = api1
        and channel = chG and drop_data = None and b = 1]
      ad cm by (simp add: bump_minutes_def)
  from d0 ce c1 em ce' c2 pm ad c3 c4 show ?thesis by blast
qed

section \<open>The refreshed inventory\<close>

lemma build_available:
  "distinct (map fst od @ map a_id xs) \<Longrightarrow>
   foldl (\<lambda>od c. if Q c then od_set (a_id c) c od else od) od xs
     = od @ map (\<lambda>c. (a_id c, c)) (filter Q xs)"
proof (induction xs arbitrary: od)
  case Nil
  then show ?case by simp
next
  case (Cons x xs)
  show ?case
  proof (cases "Q x")
    case True
    have fresh: "a_id x \<notin> fst ` set od" using Cons.prems by auto
    have "distinct (map fst (od @ [(a_id x, x)]) @ map a_id xs)" using Cons.prems by auto
    from Cons.IH [OF this] True show ?thesis by (simp add: od_set_fresh [OF fresh])
  next
    case False
    have "distinct (map fst od @ map a_id xs)" using Cons.prems by auto
    from Cons.IH [OF this] False show ?thesis by simp
  qed
qed

lemma append_earnable:
  "foldl (\<lambda>cs item. let campaign = f item in if P campaign then cs @ [campaign] else cs)
     cs items
     = cs @ filter P (map f items)"
  by (induction items arbitrary: cs) (simp_all add: Let_def)

lemma fetch_inventory_eq:
  assumes "distinct (map a_id (case available be of None \<Rightarrow> [] | Some cs \<Rightarrow> cs))"
  shows "inventory (fetch_inventory api be t)
     = py_sorted ends_at
         ((case in_progress be of None \<Rightarrow> [] | Some cs \<Rightarrow> cs) @ catalog_additions api be)"
proof -
  let ?on = "case in_progress be of None \<Rightarrow> [] | Some cs \<Rightarrow> cs"
  let ?av = "case available be of None \<Rightarrow> [] | Some cs \<Rightarrow> cs"
  let ?Q = "applicable (set (map c_id ?on))"
  let ?P = "\<lambda>c. campaign_can_earn api (new_drops be) c None"
  have d: "foldl (\<lambda>od c. if ?Q c then od_set (a_id c) c od else od) [] ?av
      = map (\<lambda>c. (a_id c, c)) (filter ?Q ?av)"
    using build_available [of "[]" ?av ?Q] assms by simp
  have a: "filter ?P (map (\<lambda>item. details be (fst item) (snd item))
              (map (\<lambda>c. (a_id c, c)) (filter ?Q ?av)))
      = catalog_additions api be"
    by (simp add: catalog_additions_def filter_map comp_def applicable_def conj_ac)
  have "inventory (fetch_inventory api be t)
      = py_sorted ends_at (foldl (\<lambda>cs item.
                     let campaign = details be (fst item) (snd item)
                     in if ?P campaign then cs @ [campaign] else cs)
              ?on (foldl (\<lambda>od c. if ?Q c then od_set (a_id c) c od else od) [] ?av))"
    by (simp add: fetch_inventory_def Let_def)
  also have "\<dots> = py_sorted ends_at (?on @ catalog_additions api be)"
    unfolding d append_earnable a ..
  finally show ?thesis .
qed

lemma length_filter_mset_eq:
  assumes "mset xs = mset ys + mset zs" "filter P zs = []"
  shows "length (filter P xs) = length (filter P ys)"
proof -
  have "length (filter P xs) = size (filter_mset P (mset xs))"
    by (metis mset_filter size_mset)
  also have "\<dots> = size (filter_mset P (mset ys)) + size (filter_mset P (mset zs))"
    by (simp add: assms(1))
  also have "\<dots> = length (filter P ys) + length (filter P zs)"
    by (metis mset_filter size_mset)
  finally show ?thesis by (simp add: assms(2))
qed

text \<open>Claim C7. For a catalog that lists every campaign identifier once, the refreshed
  inventory holds exactly the in-progress campaigns together with the fetched details of
  the catalog campaigns that are not among the in-progress ones, have status \<open>ACTIVE\<close> or
  \<open>UPCOMING\<close>, have the account linked and can still be progressed; it is sorted ascending
  by end time; and, the backend answering a detail request with the campaign asked for, an
  in-progress campaign occurs in the inventory as often as among the in-progress campaigns:
  the catalog pass never adds it again.\<close>

theorem inventory_refresh:
  assumes d: "distinct (map a_id (case available be of None \<Rightarrow> [] | Some cs \<Rightarrow> cs))"
  shows "mset (inventory (fetch_inventory api be t))
           = mset (case in_progress be of None \<Rightarrow> [] | Some cs \<Rightarrow> cs)
             + mset (catalog_additions api be) \<and>
         sorted (map ends_at (inventory (fetch_inventory api be t))) \<and>
         ((\<forall>i a. c_id (details be i a) = i) \<longrightarrow>
            (\<forall>c \<in> set (case in_progress be of None \<Rightarrow> [] | Some cs \<Rightarrow> cs).
               length (filter (\<lambda>x. c_id x = c_id c) (inventory (fetch_inventory api be t)))
               = length (filter (\<lambda>x. c_id x = c_id c)
                   (case in_progress be of None \<Rightarrow> [] | Some cs \<Rightarrow> cs))))"
proof -
  let ?on = "case in_progress be of None \<Rightarrow> [] | Some cs \<Rightarrow> cs"
  let ?inv = "inventory (fetch_inventory api be t)"
  note e = fetch_inventory_eq [OF d, of api t]
  have m: "mset ?inv = mset ?on + mset (catalog_additions api be)"
    by (simp add: e py_sorted_def)
  have s: "sorted (map ends_at ?inv)"
    by (simp add: e py_sorted_def)
  have n: "(\<forall>i a. c_id (details be i a) = i) \<longrightarrow>
            (\<forall>c \<in> set ?on. length (filter (\<lambda>x. c_id x = c_id c) ?inv)
               = length (filter (\<lambda>x. c_id x = c_id c) ?on))"
  proof (intro impI ballI)
    fix c
    assume ids: "\<forall>i a. c_id (details be i a) = i" and c: "c \<in> set ?on"
    have "filter (\<lambda>x. c_id x = c_id c) (catalog_additions api be) = []"
      using ids c by (auto simp: catalog_additions_def filter_empty_conv)
    with m show "length (filter (\<lambda>x. c_id x = c_id c) ?inv)
               = length (filter (\<lambda>x. c_id x = c_id c) ?on)"
      by (rule length_filter_mset_eq)
  qed
  from m s n show ?thesis by blast
qed

theorem inventory_refresh_witness:
  "distinct (map a_id (case available backend1 of None \<Rightarrow> [] | Some cs \<Rightarrow> cs)) \<and>
   (\<forall>i a. c_id (details backend1 i a) = i) \<and>
   campX \<in> set (case in_progress backend1 of None \<Rightarrow> [] | Some cs \<Rightarrow> cs) \<and>
   catalog_additions api1 backend1 = [details backend1 ''y''
      \<lparr>a_id = ''y'', a_status = ''ACTIVE'', a_connected = True\<rparr>] \<and>
   map c_id (inventory (fetch_inventory api1 backend1 twitch0)) = [''y'', ''x''] \<and>
   map ends_at (inventory (fetch_inventory api1 backend1 twitch0)) = [100, 200] \<and>
   length (filter (\<lambda>x. c_id x = c_id campX) (inventory (fetch_inventory api1 backend1 twitch0)))
     = 1"
proof -
  have d: "distinct (map a_id (case available backend1 of None \<Rightarrow> [] | Some cs \<Rightarrow> cs))"
    by (simp add: backend1_def)
  have ids: "\<forall>i a. c_id (details backend1 i a) = i" by (simp add: backend1_def)
  have on: "(case in_progress backend1 of None \<Rightarrow> [] | Some cs \<Rightarrow> cs) = [campX]"
    by (simp add: backend1_def)
  have ca: "catalog_additions api1 backend1 = [details backend1 ''y''
      \<lparr>a_id = ''y'', a_status = ''ACTIVE'', a_connected = True\<rparr>]"
    by (simp add: catalog_additions_def backend1_def api1_def campX_def)
  have inv: "inventory (fetch_inventory api1 backend1 twitch0)
      = [details backend1 ''y'' \<lparr>a_id = ''y'', a_status = ''ACTIVE'', a_connected = True\<rparr>,
         campX]"
    by (simp add: fetch_inventory_eq [OF d] on ca py_sorted_def)
       (simp add: backend1_def campX_def)
  from inventory_refresh [OF d, of api1 twitch0] ids on
  have "length (filter (\<lambda>x. c_id x = c_id campX)
          (inventory (fetch_inventory api1 backend1 twitch0))) = 1"
    by simp
  moreover have "map c_id (inventory (fetch_inventory api1 backend1 twitch0)) = [''y'', ''x'']"
    "map ends_at (inventory (fetch_inventory api1 backend1 twitch0)) = [100, 200]"
    by (simp_all add: inv) (simp_all add: backend1_def campX_def)
  ultimately show ?thesis using d ids on ca by simp
qed

section \<open>Retries and backoff of the request wrapper\<close>

lemma request_attempts_failures:
  assumes "\<forall>x \<in> set xs. connection_failed net body j x (e x)"
    and "distinct xs"
    and "thrown \<Longrightarrow> j \<notin> Some ` set xs"
  shows "request_attempts net body n (xs @ rest) cause thrown run
     = request_attempts net body n rest (if xs = [] then cause else Some (e (last xs)))
         (thrown \<or> j \<in> Some ` set xs)
         (run\<lparr>tried := tried run @ xs,
              sleeps := sleeps run @ filter (\<lambda>x. int x < n - 1) xs\<rparr>)"
  using assms
proof (induction xs arbitrary: cause thrown run)
  case Nil
  then show ?case by simp
next
  case (Cons x xs)
  have f: "\<forall>y \<in> set xs. connection_failed net body j y (e y)" and d: "distinct xs"
    and x: "connection_failed net body j x (e x)" and nx: "x \<notin> set xs"
    using Cons.prems by simp_all
  show ?case
  proof (cases "j = Some x")
    case True
    then obtain r where r: "net x = Responded r" "body r = BodyConnectionFailed (e x)"
      using x by (auto simp: connection_failed_def split: attempt.splits)
    have nt: "\<not> thrown" using Cons.prems(3) True by auto
    have "True \<Longrightarrow> j \<notin> Some ` set xs" using True nx by auto
    from Cons.IH [where thrown = True and cause = "Some (e x)" and run = "backoff n x run",
        OF f d this]
    show ?thesis using r nt True by (simp add: backoff_def)
  next
    case False
    then have c: "net x = ConnectionFailed (e x)"
      using x by (simp add: connection_failed_def)
    have "thrown \<Longrightarrow> j \<notin> Some ` set xs" using Cons.prems(3) by auto
    from Cons.IH [where thrown = thrown and cause = "Some (e x)" and run = "backoff n x run",
        OF f d this]
    show ?thesis using c False by (auto simp add: backoff_def)
  qed
qed

lemma backoff_before_last: "k < nat n \<Longrightarrow> filter (\<lambda>x. int x < n - 1) [0..<k] = [0..<k]"
  by (induction k) auto

lemma backoff_all: "filter (\<lambda>x. int x < n - 1) [0..<nat n] = [0..<nat n - 1]"
proof (cases "n \<le> 0")
  case True
  then show ?thesis by simp
next
  case False
  then have "[0..<nat n] = [0..<nat n - 1] @ [nat n - 1]"
    by (metis Suc_diff_1 upt_Suc_append zero_le zero_less_nat_eq not_le)
  moreover have "filter (\<lambda>x. int x < n - 1) [0..<nat n - 1] = [0..<nat n - 1]"
    by (rule filter_True) auto
  ultimately show ?thesis using False by simp
qed

lemma body_failed_flag:
  "body_failed_before j k \<Longrightarrow> j \<in> Some ` set [0..<k] \<longleftrightarrow> j \<noteq> None"
  by (cases j) (auto simp: body_failed_before_def)

lemma request_first_k_fail:
  assumes k: "k < nat n" and b: "body_failed_before j k"
    and f: "\<forall>i<k. connection_failed net body j i (e i)"
  shows "request net body True n
     = request_attempts net body n (k # [Suc k..<nat n])
         (if k = 0 then None else Some (e (k - 1))) (j \<noteq> None)
         \<lparr>sleeps = [0..<k], tried = [0..<k], outcome = Inl (RequestException None)\<rparr>"
proof -
  have split: "[0..<nat n] = [0..<k] @ k # [Suc k..<nat n]"
    using k by (metis le_add1 less_imp_le_nat upt_add_eq_append upt_conv_Cons plus_nat.add_0
        le_Suc_ex)
  have f': "\<forall>x \<in> set [0..<k]. connection_failed net body j x (e x)" using f by simp
  have l: "[0..<k] \<noteq> [] \<Longrightarrow> last [0..<k] = k - 1"
    by (cases k) simp_all
  have nt: "False \<Longrightarrow> j \<notin> Some ` set [0..<k]" by simp
  show ?thesis
    unfolding request_def split
    by (simp only: request_attempts_failures [OF f' distinct_upt nt] if_False not_True_eq_False
        body_failed_flag [OF b] simp_thms)
       (simp add: backoff_before_last [OF k] l)
qed

text \<open>Claim C9. For a call with an attempt budget of \<open>n\<close> (and a session), where a
  connection-level failure is a \<open>ClientConnectionError\<close> raised by the session's request
  or, at one attempt \<open>j\<close> at most, by the caller's body on the yielded response:
  (1) when the first \<open>k < n\<close> attempts fail at connection level and the next request is
  answered, each failure is followed by a sleep of its zero-based attempt index times the
  unit and by a retry; the response is the result when every failure came from the
  session's request, and when one came from the caller's body the second \<open>yield\<close> makes
  the context manager raise its \<open>RuntimeError\<close>; (2) when all \<open>n\<close> attempts fail at
  connection level, there is a sleep after every failure but the last and
  \<open>RequestException\<close> is raised with the last connection error as its cause; (3) an
  attempt that fails in any other way, in the session's request or in the caller's body,
  ends the call with that exception: no sleep follows and no further attempt is made.\<close>

theorem request_retry:
  "(k < nat n \<and> body_failed_before j k \<and> (\<forall>i<k. connection_failed net body j i (e i)) \<and>
      net k = Responded r \<and> (body r = Completed \<or> j \<noteq> None) \<longrightarrow>
      request net body True n
        = \<lparr>sleeps = [0..<k], tried = [0..<Suc k],
           outcome = (if j = None then Inr r else Inl GeneratorDidNotStop)\<rparr>) \<and>
   (0 < n \<and> body_failed_before j (nat n) \<and>
      (\<forall>i<nat n. connection_failed net body j i (e i)) \<longrightarrow>
      request net body True n
        = \<lparr>sleeps = [0..<nat n - 1], tried = [0..<nat n],
           outcome = Inl (RequestException (Some (e (nat n - 1))))\<rparr>) \<and>
   (k < nat n \<and> body_failed_before j k \<and> (\<forall>i<k. connection_failed net body j i (e i)) \<and>
      (net k = Failed x \<or> (j = None \<and> net k = Responded r \<and> body r = BodyFailed x)) \<longrightarrow>
      request net body True n
        = \<lparr>sleeps = [0..<k], tried = [0..<Suc k], outcome = Inl (Propagated x)\<rparr>)"
proof (intro conjI impI)
  assume "k < nat n \<and> body_failed_before j k \<and>
      (\<forall>i<k. connection_failed net body j i (e i)) \<and>
      net k = Responded r \<and> (body r = Completed \<or> j \<noteq> None)"
  then have k: "k < nat n" and b: "body_failed_before j k"
    and f: "\<forall>i<k. connection_failed net body j i (e i)"
    and r: "net k = Responded r" and c: "body r = Completed \<or> j \<noteq> None" by simp_all
  show "request net body True n
        = \<lparr>sleeps = [0..<k], tried = [0..<Suc k],
           outcome = (if j = None then Inr r else Inl GeneratorDidNotStop)\<rparr>"
    unfolding request_first_k_fail [OF k b f] using c by (auto simp add: r)
next
  assume "0 < n \<and> body_failed_before j (nat n) \<and>
      (\<forall>i<nat n. connection_failed net body j i (e i))"
  then have n: "0 < n" and b: "body_failed_before j (nat n)"
    and f: "\<forall>x \<in> set [0..<nat n]. connection_failed net body j x (e x)"
    by simp_all
  have l: "last [0..<nat n] = nat n - 1" "[0..<nat n] \<noteq> []"
    using n by (cases "nat n"; simp)+
  have nt: "False \<Longrightarrow> j \<notin> Some ` set [0..<nat n]" by simp
  have "request net body True n
      = request_attempts net body n ([0..<nat n] @ []) None False
          \<lparr>sleeps = [], tried = [], outcome = Inl (RequestException None)\<rparr>"
    by (simp add: request_def)
  also have "\<dots> = \<lparr>sleeps = [0..<nat n - 1], tried = [0..<nat n],
           outcome = Inl (RequestException (Some (e (nat n - 1))))\<rparr>"
    using n
    by (simp only: request_attempts_failures [OF f distinct_upt nt])
       (simp add: backoff_all l)
  finally show "request net body True n
        = \<lparr>sleeps = [0..<nat n - 1], tried = [0..<nat n],
           outcome = Inl (RequestException (Some (e (nat n - 1))))\<rparr>" .
next
  assume "k < nat n \<and> body_failed_before j k \<and>
      (\<forall>i<k. connection_failed net body j i (e i)) \<and>
      (net k = Failed x \<or> (j = None \<and> net k = Responded r \<and> body r = BodyFailed x))"
  then have k: "k < nat n" and b: "body_failed_before j k"
    and f: "\<forall>i<k. connection_failed net body j i (e i)"
    and c: "net k = Failed x \<or> (j = None \<and> net k = Responded r \<and> body r = BodyFailed x)"
    by simp_all
  show "request net body True n
      = \<lparr>sleeps = [0..<k], tried = [0..<Suc k], outcome = Inl (Propagated x)\<rparr>"
    unfolding request_first_k_fail [OF k b f] using c by auto
qed

theorem request_retry_witness:
  "(2::nat) < nat 5 \<and> net_recover 0 = ConnectionFailed 0 \<and> net_recover 1 = ConnectionFailed 1 \<and>
   net_recover 2 = Responded 7 \<and> body1 7 = Completed \<and>
   request net_recover body1 True 5
     = \<lparr>sleeps = [0, 1], tried = [0, 1, 2], outcome = Inr 7\<rparr> \<and>
   (1::nat) < nat 5 \<and> net_lost 0 = Responded 8 \<and> body1 8 = BodyConnectionFailed 20 \<and>
   net_lost 1 = Responded 7 \<and>
   request net_lost body1 True 5
     = \<lparr>sleeps = [0], tried = [0, 1], outcome = Inl GeneratorDidNotStop\<rparr> \<and>
   (0::int) < 3 \<and> net_down 0 = ConnectionFailed 10 \<and> net_down 1 = ConnectionFailed 11 \<and>
   net_down 2 = ConnectionFailed 12 \<and>
   request net_down body1 True 3
     = \<lparr>sleeps = [0, 1], tried = [0, 1, 2], outcome = Inl (RequestException (Some 12))\<rparr> \<and>
   net_decode 0 = ConnectionFailed 0 \<and> net_decode 1 = Responded 9 \<and> body1 9 = BodyFailed 9 \<and>
   request net_decode body1 True 5
     = \<lparr>sleeps = [0], tried = [0, 1], outcome = Inl (Propagated 9)\<rparr>"
proof -
  have u1: "[0..<1] = [0::nat]" by simp
  have u2: "[0..<2] = [0::nat, 1]" by (simp add: numeral_2_eq_2)
  have u3: "[0..<3] = [0::nat, 1, 2]" by (simp add: numeral_3_eq_3 numeral_2_eq_2)
  have e: "net_recover 0 = ConnectionFailed 0" "net_recover 1 = ConnectionFailed 1"
    "net_recover 2 = Responded 7" "body1 7 = Completed"
    "net_lost 0 = Responded 8" "body1 8 = BodyConnectionFailed 20" "net_lost 1 = Responded 7"
    "net_down 0 = ConnectionFailed 10" "net_down 1 = ConnectionFailed 11"
    "net_down 2 = ConnectionFailed 12"
    "net_decode 0 = ConnectionFailed 0" "net_decode 1 = Responded 9" "body1 9 = BodyFailed 9"
    by (simp_all add: net_recover_def net_down_def net_decode_def net_lost_def body1_def)
  have a1: "(2::nat) < nat 5" by simp
  have a2: "body_failed_before None 2" by (simp add: body_failed_before_def)
  have a3: "\<forall>i<2. connection_failed net_recover body1 None i i"
    by (simp add: connection_failed_def net_recover_def)
  from request_retry [where k = 2 and n = 5 and net = net_recover and body = body1
      and j = None and e = "\<lambda>i. i" and r = 7] a1 a2 a3 e(3,4)
  have "request net_recover body1 True 5
      = \<lparr>sleeps = [0..<2], tried = [0..<Suc 2], outcome = Inr 7\<rparr>"
    by simp
  then have a: "request net_recover body1 True 5
      = \<lparr>sleeps = [0, 1], tried = [0, 1, 2], outcome = Inr 7\<rparr>"
    by (simp only: u2 upt_Suc_append [of 0 2] le0 append.simps)
  have l1: "(1::nat) < nat 5" by simp
  have l2: "body_failed_before (Some 0) 1" by (simp add: body_failed_before_def)
  have l3: "\<forall>i<1. connection_failed net_lost body1 (Some 0) i 20"
    by (simp add: connection_failed_def net_lost_def body1_def)
  from request_retry [where k = 1 and n = 5 and net = net_lost and body = body1
      and j = "Some 0" and e = "\<lambda>i. 20" and r = 7] l1 l2 l3 e(7)
  have "request net_lost body1 True 5
      = \<lparr>sleeps = [0..<1], tried = [0..<Suc 1], outcome = Inl GeneratorDidNotStop\<rparr>"
    by simp
  moreover have s1: "Suc 1 = 2" by simp
  ultimately have l: "request net_lost body1 True 5
      = \<lparr>sleeps = [0], tried = [0, 1], outcome = Inl GeneratorDidNotStop\<rparr>"
    by (simp only: u1 u2)
  have b1: "(0::int) < 3" by simp
  have b2: "body_failed_before None (nat 3)" by (simp add: body_failed_before_def)
  have b3: "\<forall>i<nat 3. connection_failed net_down body1 None i (10 + i)"
    by (simp add: connection_failed_def net_down_def)
  from request_retry [where n = 3 and net = net_down and body = body1 and j = None
      and e = "\<lambda>i. 10 + i"] b1 b2 b3
  have "request net_down body1 True 3
      = \<lparr>sleeps = [0..<nat 3 - 1], tried = [0..<nat 3],
         outcome = Inl (RequestException (Some (10 + (nat 3 - 1))))\<rparr>"
    by blast
  moreover have "nat 3 - 1 = (2::nat)" "nat 3 = (3::nat)" "10 + (2::nat) = 12" by simp_all
  ultimately have b: "request net_down body1 True 3
      = \<lparr>sleeps = [0, 1], tried = [0, 1, 2], outcome = Inl (RequestException (Some 12))\<rparr>"
    by (simp only: u2 u3)
  have c2: "body_failed_before None 1" by (simp add: body_failed_before_def)
  have c3: "\<forall>i<1. connection_failed net_decode body1 None i i"
    by (simp add: connection_failed_def net_decode_def)
  from request_retry [where k = 1 and n = 5 and net = net_decode and body = body1
      and j = None and e = "\<lambda>i. i" and r = 9 and x = 9] l1 c2 c3 e(12,13)
  have "request net_decode body1 True 5
      = \<lparr>sleeps = [0..<1], tried = [0..<Suc 1], outcome = Inl (Propagated 9)\<rparr>"
    by blast
  with s1 have c: "request net_decode body1 True 5
      = \<lparr>sleeps = [0], tried = [0, 1], outcome = Inl (Propagated 9)\<rparr>"
    by (simp only: u1 u2)
  from a1 l1 b1 e a l b c show ?thesis by blast
qed

section \<open>Bounded validation of the session\<close>

lemma obtain_token_ok:
  assumes L: "\<forall>k. login_result w k = Inr (tok k)"
    and NK: "jar (session r) = [] \<or> access_token (session r) \<noteq> None
             \<or> map_of (jar (session r)) ''auth-token'' \<noteq> None"
  obtains r1 c where "obtain_token w r = Inr (r1, c)"
    and "validations r1 = validations r" and "jar (session r1) = jar (session r)"
    and "access_token (session r1) \<noteq> None" and "user_id (session r1) = user_id (session r)"
    and "is_logged_in (session r1) = is_logged_in (session r)"
    and "CookieCleared \<in> set (events r1) \<longleftrightarrow> CookieCleared \<in> set (events r)"
    and "logins r1 = (if jar (session r) = [] then Suc (logins r) else logins r)"
    and "jar (session r) = [] \<Longrightarrow> access_token (session r1) = Some (tok (logins r))"
proof (cases "jar (session r) = []")
  case True
  show ?thesis
    by (rule that [of "r\<lparr>session := (session r)\<lparr>access_token := Some (tok (logins r))\<rparr>,
                          logins := Suc (logins r),
                          events := events r @ [LoggedIn (tok (logins r))]\<rparr>"
                     "od_set ''auth-token'' (tok (logins r)) (jar (session r))"])
       (simp_all add: obtain_token_def L True)
next
  case False
  show ?thesis
  proof (cases "access_token (session r)")
    case (Some a)
    show ?thesis
      by (rule that [of r "jar (session r)"]) (simp_all add: obtain_token_def False Some)
  next
    case None
    with NK False obtain v where v: "map_of (jar (session r)) ''auth-token'' = Some v" by auto
    show ?thesis
      by (rule that [of "r\<lparr>session := (session r)\<lparr>access_token := Some v\<rparr>\<rparr>" "jar (session r)"])
         (simp_all add: obtain_token_def False None v)
  qed
qed

lemma attempt_step:
  assumes L: "\<forall>k. login_result w k = Inr (tok k)"
    and V: "\<forall>k. validate_result w k = Inr (status k, uid k)"
    and NK: "jar (session r) = [] \<or> access_token (session r) \<noteq> None
             \<or> map_of (jar (session r)) ''auth-token'' \<noteq> None"
  obtains r2 c where
    "check_login_loop w (Suc k) r =
       (if status (validations r) = 401
        then check_login_loop w k
               (r2\<lparr>session := (session r2)\<lparr>jar := []\<rparr>, events := events r2 @ [CookieCleared]\<rparr>)
        else if status (validations r) = 200 then (Inr (c, uid (validations r)), r2)
        else check_login_loop w k r2)"
    and "validations r2 = Suc (validations r)" and "jar (session r2) = jar (session r)"
    and "access_token (session r2) \<noteq> None" and "user_id (session r2) = user_id (session r)"
    and "is_logged_in (session r2) = is_logged_in (session r)"
    and "CookieCleared \<in> set (events r2) \<longleftrightarrow> CookieCleared \<in> set (events r)"
    and "logins r2 = (if jar (session r) = [] then Suc (logins r) else logins r)"
    and "jar (session r) = [] \<Longrightarrow> access_token (session r2) = Some (tok (logins r))"
    and "Validated (access_token (session r2)) (status (validations r)) \<in> set (events r2)"
proof -
  from obtain_token_ok [OF L NK]
  obtain r1 c where o: "obtain_token w r = Inr (r1, c)"
    and f: "validations r1 = validations r" "jar (session r1) = jar (session r)"
      "access_token (session r1) \<noteq> None" "user_id (session r1) = user_id (session r)"
      "is_logged_in (session r1) = is_logged_in (session r)"
      "CookieCleared \<in> set (events r1) \<longleftrightarrow> CookieCleared \<in> set (events r)"
      "logins r1 = (if jar (session r) = [] then Suc (logins r) else logins r)"
    and g: "jar (session r) = [] \<Longrightarrow> access_token (session r1) = Some (tok (logins r))"
    by blast
  let ?r2 = "r1\<lparr>validations := Suc (validations r1),
                events := events r1 @ [Validated (access_token (session r1)) (status (validations r))]\<rparr>"
  show ?thesis
  proof (rule that [of ?r2 c])
    show "check_login_loop w (Suc k) r =
       (if status (validations r) = 401
        then check_login_loop w k
               (?r2\<lparr>session := (session ?r2)\<lparr>jar := []\<rparr>, events := events ?r2 @ [CookieCleared]\<rparr>)
        else if status (validations r) = 200 then (Inr (c, uid (validations r)), ?r2)
        else check_login_loop w k ?r2)"
      by (simp add: check_login_loop.simps o V f(1) Let_def)
  qed (simp_all add: f g)
qed

lemma check_login_unfold:
  assumes "access_token s = None \<or> user_id s = None"
  shows "check_login w s =
     (case check_login_loop w (Suc (Suc 0)) \<lparr>session = s, logins = 0, validations = 0, events = []\<rparr> of
        (Inl e, r) \<Rightarrow> (Inl e, r)
      | (Inr (cookie, uid), r) \<Rightarrow>
          (Inr (), r\<lparr>session := (session r)\<lparr>user_id := Some uid, is_logged_in := True,
                 jar := update_cookies (od_set ''persistent'' (py_str w uid) cookie)
                          (jar (session r))\<rparr>\<rparr>))"
proof -
  have "(access_token s \<noteq> None \<and> user_id s \<noteq> None) = False" using assms by auto
  then show ?thesis
    by (simp only: check_login_def Let_def numeral_2_eq_2 if_False)
qed

lemma check_login_summary:
  assumes need: "access_token s = None \<or> user_id s = None"
    and L: "\<forall>k. login_result w k = Inr (tok k)"
    and V: "\<forall>k. validate_result w k = Inr (status k, uid k)"
    and NK: "jar s = [] \<or> access_token s \<noteq> None \<or> map_of (jar s) ''auth-token'' \<noteq> None"
  shows "fst (check_login w s)
           = (if status 0 = 200 \<or> status 1 = 200 then Inr () else Inl LoginVerificationFailure) \<and>
         user_id (session (snd (check_login w s)))
           = (if status 0 = 200 then Some (uid 0)
              else if status 1 = 200 then Some (uid 1) else user_id s) \<and>
         is_logged_in (session (snd (check_login w s)))
           = (if status 0 = 200 \<or> status 1 = 200 then True else is_logged_in s) \<and>
         validations (snd (check_login w s)) = (if status 0 = 200 then 1 else 2) \<and>
         (CookieCleared \<in> set (events (snd (check_login w s)))
           \<longleftrightarrow> status 0 = 401 \<or> (status 0 \<noteq> 200 \<and> status 1 = 401)) \<and>
         (status 0 = 401 \<longrightarrow>
           logins (snd (check_login w s)) = (if jar s = [] then 2 else 1) \<and>
           access_token (session (snd (check_login w s)))
             = Some (tok (logins (snd (check_login w s)) - 1)) \<and>
           Validated (Some (tok (logins (snd (check_login w s)) - 1))) (status 1)
             \<in> set (events (snd (check_login w s))))"
proof -
  let ?r0 = "\<lparr>session = s, logins = 0, validations = 0, events = []\<rparr>"
  have NK0: "jar (session ?r0) = [] \<or> access_token (session ?r0) \<noteq> None
             \<or> map_of (jar (session ?r0)) ''auth-token'' \<noteq> None"
    using NK by simp
  note cu = check_login_unfold [OF need, of w]
  show ?thesis
  proof (rule attempt_step [OF L V NK0, where k = "Suc 0"])
  fix r2 c
  assume
    l1': "check_login_loop w (Suc (Suc 0)) ?r0 =
       (if status (validations ?r0) = 401
        then check_login_loop w (Suc 0)
               (r2\<lparr>session := (session r2)\<lparr>jar := []\<rparr>, events := events r2 @ [CookieCleared]\<rparr>)
        else if status (validations ?r0) = 200 then (Inr (c, uid (validations ?r0)), r2)
        else check_login_loop w (Suc 0) r2)"
    and v2': "validations r2 = Suc (validations ?r0)" and j2': "jar (session r2) = jar (session ?r0)"
    and a2: "access_token (session r2) \<noteq> None" and u2': "user_id (session r2) = user_id (session ?r0)"
    and i2': "is_logged_in (session r2) = is_logged_in (session ?r0)"
    and c2': "CookieCleared \<in> set (events r2) \<longleftrightarrow> CookieCleared \<in> set (events ?r0)"
    and n2': "logins r2 = (if jar (session ?r0) = [] then Suc (logins ?r0) else logins ?r0)"
    and t2': "jar (session ?r0) = [] \<Longrightarrow> access_token (session r2) = Some (tok (logins ?r0))"
    and e2': "Validated (access_token (session r2)) (status (validations ?r0)) \<in> set (events r2)"
  have l1: "check_login_loop w (Suc (Suc 0)) ?r0 =
       (if status 0 = 401
        then check_login_loop w (Suc 0)
               (r2\<lparr>session := (session r2)\<lparr>jar := []\<rparr>, events := events r2 @ [CookieCleared]\<rparr>)
        else if status 0 = 200 then (Inr (c, uid 0), r2)
        else check_login_loop w (Suc 0) r2)"
    using l1' by simp
  have v2: "validations r2 = Suc 0" using v2' by simp
  have u2: "user_id (session r2) = user_id s" using u2' by simp
  have i2: "is_logged_in (session r2) = is_logged_in s" using i2' by simp
  have c2: "CookieCleared \<notin> set (events r2)" using c2' by simp
  have n2: "logins r2 = (if jar s = [] then Suc 0 else 0)" using n2' by simp
  consider (ok) "status 0 = 200" | (unauth) "status 0 = 401"
    | (other) "status 0 \<noteq> 200" "status 0 \<noteq> 401" by blast
  then show ?thesis
  proof cases
    case ok
    then have "check_login_loop w (Suc (Suc 0)) ?r0 = (Inr (c, uid 0), r2)"
      by (simp add: l1)
    then show ?thesis
      by (simp add: cu ok v2 u2 i2 c2)
  next
    case unauth
    let ?ra = "r2\<lparr>session := (session r2)\<lparr>jar := []\<rparr>, events := events r2 @ [CookieCleared]\<rparr>"
    have NKa: "jar (session ?ra) = [] \<or> access_token (session ?ra) \<noteq> None
             \<or> map_of (jar (session ?ra)) ''auth-token'' \<noteq> None" by simp
    show ?thesis
    proof (rule attempt_step [OF L V NKa, where k = 0])
    fix r3 c3
    assume
      l2': "check_login_loop w (Suc 0) ?ra =
         (if status (validations ?ra) = 401
          then check_login_loop w 0
                 (r3\<lparr>session := (session r3)\<lparr>jar := []\<rparr>, events := events r3 @ [CookieCleared]\<rparr>)
          else if status (validations ?ra) = 200 then (Inr (c3, uid (validations ?ra)), r3)
          else check_login_loop w 0 r3)"
      and v3': "validations r3 = Suc (validations ?ra)"
      and u3': "user_id (session r3) = user_id (session ?ra)"
      and i3': "is_logged_in (session r3) = is_logged_in (session ?ra)"
      and c3': "CookieCleared \<in> set (events r3) \<longleftrightarrow> CookieCleared \<in> set (events ?ra)"
      and n3': "logins r3 = (if jar (session ?ra) = [] then Suc (logins ?ra) else logins ?ra)"
      and a3': "jar (session ?ra) = [] \<Longrightarrow> access_token (session r3) = Some (tok (logins ?ra))"
      and e3': "Validated (access_token (session r3)) (status (validations ?ra)) \<in> set (events r3)"
    have l2: "check_login_loop w (Suc 0) ?ra =
         (if status (Suc 0) = 401
          then (Inl LoginVerificationFailure,
                r3\<lparr>session := (session r3)\<lparr>jar := []\<rparr>, events := events r3 @ [CookieCleared]\<rparr>)
          else if status (Suc 0) = 200 then (Inr (c3, uid (Suc 0)), r3)
          else (Inl LoginVerificationFailure, r3))"
      using l2' by (simp add: v2 check_login_loop.simps)
    have v3: "validations r3 = Suc (Suc 0)" using v3' by (simp add: v2)
    have u3: "user_id (session r3) = user_id s" using u3' by (simp add: u2)
    have i3: "is_logged_in (session r3) = is_logged_in s" using i3' by (simp add: i2)
    have c3: "CookieCleared \<in> set (events r3)" using c3' by simp
    have n3: "logins r3 = Suc (logins r2)" using n3' by simp
    have a3: "access_token (session r3) = Some (tok (logins r2))" using a3' by simp
    have e3: "Validated (Some (tok (logins r2))) (status (Suc 0)) \<in> set (events r3)"
      using e3' by (simp add: a3 v2)
    have e3a: "jar s = [] \<Longrightarrow>
        Validated (Some (tok (Suc 0))) (status (Suc 0)) \<in> set (events r3)"
      and e3b: "jar s \<noteq> [] \<Longrightarrow>
        Validated (Some (tok 0)) (status (Suc 0)) \<in> set (events r3)"
      using e3 by (simp_all add: n2)
    have l: "check_login_loop w (Suc (Suc 0)) ?r0 = check_login_loop w (Suc 0) ?ra"
      by (simp add: l1 unauth)
    show ?thesis
      unfolding cu l l2
      using e3a e3b by (auto simp add: unauth v3 a3 u3 i3 c3 n3 n2)
    qed
  next
    case other
    have NKb: "jar (session r2) = [] \<or> access_token (session r2) \<noteq> None
             \<or> map_of (jar (session r2)) ''auth-token'' \<noteq> None" using a2 by simp
    show ?thesis
    proof (rule attempt_step [OF L V NKb, where k = 0])
    fix r3 c3
    assume
      l2': "check_login_loop w (Suc 0) r2 =
         (if status (validations r2) = 401
          then check_login_loop w 0
                 (r3\<lparr>session := (session r3)\<lparr>jar := []\<rparr>, events := events r3 @ [CookieCleared]\<rparr>)
          else if status (validations r2) = 200 then (Inr (c3, uid (validations r2)), r3)
          else check_login_loop w 0 r3)"
      and v3': "validations r3 = Suc (validations r2)"
      and u3': "user_id (session r3) = user_id (session r2)"
      and i3': "is_logged_in (session r3) = is_logged_in (session r2)"
      and c3': "CookieCleared \<in> set (events r3) \<longleftrightarrow> CookieCleared \<in> set (events r2)"
    have l2: "check_login_loop w (Suc 0) r2 =
         (if status (Suc 0) = 401
          then (Inl LoginVerificationFailure,
                r3\<lparr>session := (session r3)\<lparr>jar := []\<rparr>, events := events r3 @ [CookieCleared]\<rparr>)
          else if status (Suc 0) = 200 then (Inr (c3, uid (Suc 0)), r3)
          else (Inl LoginVerificationFailure, r3))"
      using l2' by (simp add: v2 check_login_loop.simps)
    have v3: "validations r3 = Suc (Suc 0)" using v3' by (simp add: v2)
    have u3: "user_id (session r3) = user_id s" using u3' by (simp add: u2)
    have i3: "is_logged_in (session r3) = is_logged_in s" using i3' by (simp add: i2)
    have c3: "CookieCleared \<notin> set (events r3)" using c3' c2 by simp
    have l: "check_login_loop w (Suc (Suc 0)) ?r0 = check_login_loop w (Suc 0) r2"
      by (simp add: l1 other)
    show ?thesis
      unfolding cu l l2
      by (simp add: other v3 u3 i3 c3)
    qed
  qed
  qed
qed

text \<open>Claim C8, as stated, fails: a status that is neither 200 nor 401 is no fatal failure.
  With a stored cookie, a first validation answered 500 and a second answered 200, the
  session is validated and the user identifier is set.\<close>

theorem other_status_is_retried_counterexample:
  "fst (check_login (world_of 500 200) session_cookie) = Inr () \<and>
   user_id (session (snd (check_login (world_of 500 200) session_cookie))) = Some 42 \<and>
   events (snd (check_login (world_of 500 200) session_cookie))
     = [Validated (Some ''old'') 500, Validated (Some ''old'') 200]"
  by (simp add: check_login_def check_login_loop.simps obtain_token_def world_of_def
      session_cookie_def numeral_2_eq_2 Let_def)

text \<open>Claim C8, amended. When the session lacks the access token or the user identifier,
  the token (recovered from the cookie or obtained by logging in) is validated against the
  backend, in at most 2 attempts. (1) A 200 at the first attempt validates the session
  with one request. (2) A 401 at the first attempt clears the stored cookies and the
  second attempt runs the whole flow again: it logs in and validates the fresh token.
  (3) When neither attempt is answered 200, whether by 401 or by another status, the fatal
  login-verification error is raised after exactly 2 validation requests. (4) Any other
  non-success status at the first attempt leaves the cookies alone and goes on to the
  second attempt, which validates the session if it is answered 200. Here every login
  succeeds, every validation request is answered, and a stored cookie set holds the
  \<open>auth-token\<close> cookie.\<close>

theorem session_validation:
  assumes need: "access_token s = None \<or> user_id s = None"
    and L: "\<forall>k. login_result w k = Inr (tok k)"
    and V: "\<forall>k. validate_result w k = Inr (status k, uid k)"
    and NK: "jar s = [] \<or> access_token s \<noteq> None \<or> map_of (jar s) ''auth-token'' \<noteq> None"
  shows
    "(status 0 = 200 \<longrightarrow>
        fst (check_login w s) = Inr () \<and>
        user_id (session (snd (check_login w s))) = Some (uid 0) \<and>
        is_logged_in (session (snd (check_login w s))) \<and>
        validations (snd (check_login w s)) = 1) \<and>
     (status 0 = 401 \<longrightarrow>
        CookieCleared \<in> set (events (snd (check_login w s))) \<and>
        validations (snd (check_login w s)) = 2 \<and>
        logins (snd (check_login w s)) = (if jar s = [] then 2 else 1) \<and>
        access_token (session (snd (check_login w s)))
          = Some (tok (logins (snd (check_login w s)) - 1)) \<and>
        Validated (Some (tok (logins (snd (check_login w s)) - 1))) (status 1)
          \<in> set (events (snd (check_login w s))) \<and>
        (status 1 = 200 \<longrightarrow>
           fst (check_login w s) = Inr () \<and>
           user_id (session (snd (check_login w s))) = Some (uid 1))) \<and>
     (status 0 \<noteq> 200 \<and> status 1 \<noteq> 200 \<longrightarrow>
        fst (check_login w s) = Inl LoginVerificationFailure \<and>
        validations (snd (check_login w s)) = 2) \<and>
     (status 0 \<noteq> 200 \<and> status 0 \<noteq> 401 \<and> status 1 = 200 \<longrightarrow>
        fst (check_login w s) = Inr () \<and>
        user_id (session (snd (check_login w s))) = Some (uid 1) \<and>
        CookieCleared \<notin> set (events (snd (check_login w s))) \<and>
        validations (snd (check_login w s)) = 2)"
proof -
  note sm = check_login_summary [OF need L V NK]
  have 1: "fst (check_login w s)
      = (if status 0 = 200 \<or> status 1 = 200 then Inr () else Inl LoginVerificationFailure)"
    using sm by blast
  have 2: "user_id (session (snd (check_login w s)))
      = (if status 0 = 200 then Some (uid 0)
         else if status 1 = 200 then Some (uid 1) else user_id s)"
    using sm by blast
  have 3: "is_logged_in (session (snd (check_login w s)))
      = (if status 0 = 200 \<or> status 1 = 200 then True else is_logged_in s)"
    using sm by blast
  have 4: "validations (snd (check_login w s)) = (if status 0 = 200 then 1 else 2)"
    using sm by blast
  have 5: "CookieCleared \<in> set (events (snd (check_login w s)))
      \<longleftrightarrow> status 0 = 401 \<or> (status 0 \<noteq> 200 \<and> status 1 = 401)"
    using sm by blast
  have 6: "status 0 = 401 \<longrightarrow>
      logins (snd (check_login w s)) = (if jar s = [] then 2 else 1) \<and>
      access_token (session (snd (check_login w s)))
        = Some (tok (logins (snd (check_login w s)) - 1)) \<and>
      Validated (Some (tok (logins (snd (check_login w s)) - 1))) (status 1)
        \<in> set (events (snd (check_login w s)))"
    using sm by blast
  show ?thesis
  proof (intro conjI impI)
    assume "status 0 = 200"
    then show "fst (check_login w s) = Inr ()"
      "user_id (session (snd (check_login w s))) = Some (uid 0)"
      "is_logged_in (session (snd (check_login w s)))"
      "validations (snd (check_login w s)) = 1"
      by (simp_all add: 1 2 3 4)
  next
    assume a: "status 0 = 401"
    then show "CookieCleared \<in> set (events (snd (check_login w s)))"
      "validations (snd (check_login w s)) = 2"
      by (simp_all add: 4 5)
    from a 6 show "logins (snd (check_login w s)) = (if jar s = [] then 2 else 1)"
      "access_token (session (snd (check_login w s)))
        = Some (tok (logins (snd (check_login w s)) - 1))"
      "Validated (Some (tok (logins (snd (check_login w s)) - 1))) (status 1)
        \<in> set (events (snd (check_login w s)))"
      by blast+
    assume "status 1 = 200"
    with a show "fst (check_login w s) = Inr ()"
      "user_id (session (snd (check_login w s))) = Some (uid 1)"
      by (simp_all add: 1 2)
  next
    assume "status 0 \<noteq> 200 \<and> status 1 \<noteq> 200"
    then show "fst (check_login w s) = Inl LoginVerificationFailure"
      "validations (snd (check_login w s)) = 2"
      by (simp_all add: 1 4)
  next
    assume "status 0 \<noteq> 200 \<and> status 0 \<noteq> 401 \<and> status 1 = 200"
    then show "fst (check_login w s) = Inr ()"
      "user_id (session (snd (check_login w s))) = Some (uid 1)"
      "CookieCleared \<notin> set (events (snd (check_login w s)))"
      "validations (snd (check_login w s)) = 2"
      by (simp_all add: 1 2 4 5)
  qed
qed

theorem session_validation_witness:
  "access_token session_cookie = None \<and>
   map_of (jar session_cookie) ''auth-token'' \<noteq> None \<and>
   (\<forall>k. login_result (world_of 401 200) k = Inr ''new'') \<and>
   (\<forall>k. validate_result (world_of 401 200) k = Inr (if k = 0 then 401 else 200, 42)) \<and>
   fst (check_login (world_of 401 200) session_cookie) = Inr () \<and>
   CookieCleared \<in> set (events (snd (check_login (world_of 401 200) session_cookie))) \<and>
   access_token (session (snd (check_login (world_of 401 200) session_cookie))) = Some ''new'' \<and>
   fst (check_login (world_of 401 401) session_cookie) = Inl LoginVerificationFailure \<and>
   validations (snd (check_login (world_of 401 401) session_cookie)) = 2 \<and>
   fst (check_login (world_of 200 200) session_cookie) = Inr () \<and>
   validations (snd (check_login (world_of 200 200) session_cookie)) = 1 \<and>
   fst (check_login (world_of 503 200) session_cookie) = Inr () \<and>
   CookieCleared \<notin> set (events (snd (check_login (world_of 503 200) session_cookie)))"
proof -
  have need: "access_token session_cookie = None \<or> user_id session_cookie = None"
    and n: "access_token session_cookie = None"
    and k: "map_of (jar session_cookie) ''auth-token'' \<noteq> None"
    by (simp_all add: session_cookie_def)
  have NK: "jar session_cookie = [] \<or> access_token session_cookie \<noteq> None
      \<or> map_of (jar session_cookie) ''auth-token'' \<noteq> None"
    using k by simp
  have L: "\<forall>k. login_result (world_of a b) k = Inr ''new''" for a b
    by (simp add: world_of_def)
  have V: "\<forall>k. validate_result (world_of a b) k = Inr (if k = 0 then a else b, 42)" for a b
    by (simp add: world_of_def)
  note sv = session_validation [OF need L V NK]
  have a: "fst (check_login (world_of 401 200) session_cookie) = Inr ()"
    "CookieCleared \<in> set (events (snd (check_login (world_of 401 200) session_cookie)))"
    "access_token (session (snd (check_login (world_of 401 200) session_cookie))) = Some ''new''"
    using sv [of 401 200] by simp_all
  have b: "fst (check_login (world_of 401 401) session_cookie) = Inl LoginVerificationFailure"
    "validations (snd (check_login (world_of 401 401) session_cookie)) = 2"
    using sv [of 401 401] by simp_all
  have c: "fst (check_login (world_of 200 200) session_cookie) = Inr ()"
    "validations (snd (check_login (world_of 200 200) session_cookie)) = 1"
    using sv [of 200 200] by simp_all
  have d: "fst (check_login (world_of 503 200) session_cookie) = Inr ()"
    "CookieCleared \<notin> set (events (snd (check_login (world_of 503 200) session_cookie)))"
    using sv [of 503 200] by simp_all
  from n k L [of 401 200] V [of 401 200] a b c d show ?thesis by blast
qed

end
